theory Spec2Isabelle
  imports Complex_Main
begin

section \<open>Tropospheric delay along a ray: a model of \<^verbatim>\<open>delay.py\<close>\<close>

text \<open>
  The theory embeds the ray construction, the sampler, the trapezoidal quadrature and the
  parallel dispatch of \<^verbatim>\<open>src/delay.py\<close>. NumPy arrays of floats are lists of
  reals: every statement below is about exact arithmetic, and says nothing about rounding.
  A leading underscore is not part of an Isabelle name, so \<^verbatim>\<open>_STEP\<close>,
  \<^verbatim>\<open>_too_high\<close>, \<^verbatim>\<open>_common_delay\<close> and \<^verbatim>\<open>_parmap\<close> appear
  as \<open>STEP\<close>, \<open>too_high\<close>, \<open>common_delay\<close> and \<open>parmap\<close>.
\<close>

subsection \<open>Errors, vectors and the geometry collaborator\<close>

text \<open>
  Exceptions are values. \<open>ValueError\<close>, \<open>IndexError\<close> and \<open>TypeError\<close> are Python's;
  the texts of the ones raised inside NumPy are abbreviated. \<open>ModelError\<close> stands for
  whatever the weather model raises during a query.
\<close>

datatype error =
    ValueError string
  | IndexError
  | TypeError
  | ModelError string

type_synonym vec3 = "real \<times> real \<times> real"

definition vadd :: "vec3 \<Rightarrow> vec3 \<Rightarrow> vec3" where
  "vadd a b = (case a of (a1, a2, a3) \<Rightarrow> case b of (b1, b2, b3) \<Rightarrow> (a1 + b1, a2 + b2, a3 + b3))"

definition smul :: "real \<Rightarrow> vec3 \<Rightarrow> vec3" where
  "smul t a = (case a of (a1, a2, a3) \<Rightarrow> (t * a1, t * a2, t * a3))"

definition sdiv :: "vec3 \<Rightarrow> real \<Rightarrow> vec3" where
  "sdiv a l = (case a of (a1, a2, a3) \<Rightarrow> (a1 / l, a2 / l, a3 / l))"

definition norm3 :: "vec3 \<Rightarrow> real" where
  \<comment> \<open>\<^verbatim>\<open>np.linalg.norm(v, axis=-1)\<close> on one row\<close>
  "norm3 a = (case a of (a1, a2, a3) \<Rightarrow> sqrt (a1 * a1 + a2 * a2 + a3 * a3))"

text \<open>
  Modelled from the spec: \<^verbatim>\<open>util.cosd\<close> and \<^verbatim>\<open>util.sind\<close> are not under
  \<^verbatim>\<open>src/\<close>; they are the cosine and the sine of an angle given in degrees (the
  correction factor of projection mode is \<open>1/cos(incidence)\<close>).
\<close>

definition cosd :: "real \<Rightarrow> real" where
  "cosd x = cos (x * pi / 180)"

definition sind :: "real \<Rightarrow> real" where
  "sind x = sin (x * pi / 180)"

text \<open>
  The other members of \<^verbatim>\<open>util\<close> that \<^verbatim>\<open>delay.py\<close> uses are parameters of the
  model: the two coordinate transforms and the reference height \<^verbatim>\<open>util.zref\<close>.
  \<open>ecef2lla\<close> returns latitude, longitude and height, in this order.
\<close>

record geo =
  lla2ecef :: "real \<Rightarrow> real \<Rightarrow> real \<Rightarrow> vec3"
  ecef2lla :: "vec3 \<Rightarrow> real \<times> real \<times> real"
  zref :: real

definition height_of :: "geo \<Rightarrow> vec3 \<Rightarrow> real" where
  \<comment> \<open>row 2 of \<^verbatim>\<open>np.stack(util.ecef2lla(...))\<close>\<close>
  "height_of g p = snd (snd (ecef2lla g p))"

definition STEP :: real where
  "STEP = 15"

subsection \<open>NumPy helpers\<close>

definition linspace :: "real \<Rightarrow> real \<Rightarrow> nat \<Rightarrow> real list" where
  \<comment> \<open>\<^verbatim>\<open>np.linspace(a, b, n)\<close>: \<open>n\<close> points, both ends included when \<open>n \<ge> 2\<close>\<close>
  "linspace a b n =
     (if n = 0 then []
      else if n = 1 then [a]
      else map (\<lambda>i. a + real i * ((b - a) / real (n - 1))) [0..<n])"

definition diff :: "real list \<Rightarrow> real list" where
  \<comment> \<open>\<^verbatim>\<open>np.diff\<close>\<close>
  "diff xs = map (\<lambda>i. xs ! Suc i - xs ! i) [0..<length xs - 1]"

definition bmul :: "real list \<Rightarrow> real list \<Rightarrow> error + real list" where
  \<comment> \<open>the product of two one-dimensional arrays, with NumPy's broadcasting\<close>
  "bmul a b =
     (if length a = length b then Inr (map (\<lambda>i. a ! i * b ! i) [0..<length a])
      else if length a = 1 then Inr (map (\<lambda>y. a ! 0 * y) b)
      else if length b = 1 then Inr (map (\<lambda>x. x * b ! 0) a)
      else Inl (ValueError ''operands could not be broadcast together''))"

definition pairsum :: "real list \<Rightarrow> real list" where
  \<comment> \<open>\<^verbatim>\<open>y[1:] + y[:-1]\<close>\<close>
  "pairsum ys = map (\<lambda>i. ys ! Suc i + ys ! i) [0..<length ys - 1]"

definition trapz :: "real list \<Rightarrow> real list \<Rightarrow> error + real" where
  \<comment> \<open>\<^verbatim>\<open>np.trapz(y, x)\<close>: \<^verbatim>\<open>(diff(x) * (y[1:] + y[:-1]) / 2.0).sum()\<close>\<close>
  "trapz y x =
     (case bmul (diff x) (pairsum y) of
        Inl e \<Rightarrow> Inl e
      | Inr p \<Rightarrow> Inr (sum_list (map (\<lambda>v. v / 2) p)))"

fun cumsum_from :: "nat \<Rightarrow> nat list \<Rightarrow> nat list" where
  "cumsum_from acc [] = []"
| "cumsum_from acc (x # xs) = (acc + x) # cumsum_from (acc + x) xs"

definition cumsum :: "nat list \<Rightarrow> nat list" where
  "cumsum xs = cumsum_from 0 xs"

definition roll1 :: "'a list \<Rightarrow> 'a list" where
  \<comment> \<open>\<^verbatim>\<open>np.roll(xs, 1)\<close>\<close>
  "roll1 xs = (if xs = [] then [] else last xs # butlast xs)"

definition concatenate :: "'a list list \<Rightarrow> error + 'a list" where
  \<comment> \<open>\<^verbatim>\<open>np.concatenate\<close> of a list of arrays\<close>
  "concatenate xss =
     (if xss = [] then Inl (ValueError ''need at least one array to concatenate'')
      else Inr (concat xss))"

subsection \<open>Look vectors and the search for the top of the troposphere\<close>

text \<open>
  The look-vector argument is the class \<^verbatim>\<open>Zenith\<close>, an array of shape \<open>(M, 3)\<close>
  or a one-dimensional array of \<open>M\<close> scalars.
\<close>

datatype look = Zenith | Vectors "vec3 list" | Scalars "real list"

definition too_high :: "geo \<Rightarrow> vec3 list \<Rightarrow> real \<Rightarrow> nat" where
  "too_high g positions zr =
     (let positions_lla = map (ecef2lla g) positions;
          high_indices = filter (\<lambda>i. snd (snd (positions_lla ! i)) > zr) [0..<length positions]
      in if high_indices \<noteq> [] then hd high_indices else length positions)"

subsection \<open>The computation common to both delay components\<close>

text \<open>
  The correction of projection mode: absent when ray tracing, \<open>1/cosd\<close> of every entry
  of the look-vector argument otherwise. \<open>cosd\<close> of the class \<open>Zenith\<close> is a type
  error. A two-dimensional correction is computed without complaint and cannot be
  multiplied into the one-dimensional result at the end.
\<close>

datatype correction = NoCorrection | Correction1 "real list" | Correction2 "vec3 list"

definition up_vec :: "real \<Rightarrow> real \<Rightarrow> vec3" where
  \<comment> \<open>one row of \<^verbatim>\<open>np.array((cosd(lats)*cosd(lons), cosd(lats)*sind(lons), sind(lats))).T\<close>\<close>
  "up_vec lat lon = (cosd lat * cosd lon, cosd lat * sind lon, sind lat)"

definition zenith_vecs :: "geo \<Rightarrow> real list \<Rightarrow> real list \<Rightarrow> real list \<Rightarrow> vec3 list" where
  "zenith_vecs g lats lons heights =
     map (\<lambda>i. smul (zref g - heights ! i) (up_vec (lats ! i) (lons ! i))) [0..<length lats]"

text \<open>
  The body of the first loop, for one ray: the evenly spaced path parameters, the
  positions along the ray, the index of the first position above the reference height,
  and the two prefixes that are kept.
\<close>

definition ray_body ::
  "geo \<Rightarrow> vec3 \<Rightarrow> real \<Rightarrow> nat \<Rightarrow> vec3 \<Rightarrow> nat \<times> real list \<times> vec3 list" where
  "ray_body g start_position len step scaled_look_vec =
     (let thisspace = linspace 0 len step;
          position = map (\<lambda>t. vadd start_position (smul t scaled_look_vec)) thisspace;
          first_high_index = too_high g position (zref g)
      in (first_high_index, take first_high_index thisspace, take first_high_index position))"

text \<open>
  The first loop: one iteration per look vector, reading the start position of the same
  index (an index error when there are more look vectors than points).
\<close>

fun ray_loop ::
  "geo \<Rightarrow> vec3 list \<Rightarrow> real list \<Rightarrow> nat list \<Rightarrow> vec3 list \<Rightarrow> nat list
     \<Rightarrow> error + (nat \<times> real list \<times> vec3 list) list" where
  "ray_loop g start_positions lengths steps scaled_look_vecs [] = Inr []"
| "ray_loop g start_positions lengths steps scaled_look_vecs (i # rest) =
     (if i \<ge> length start_positions then Inl IndexError
      else
        case ray_loop g start_positions lengths steps scaled_look_vecs rest of
          Inl e \<Rightarrow> Inl e
        | Inr r \<Rightarrow>
            Inr (ray_body g (start_positions ! i) (lengths ! i) (steps ! i) (scaled_look_vecs ! i) # r))"

text \<open>The second loop: the trapezoidal rule on each ray's slice of the model's answers.\<close>

fun integrate_loop ::
  "real list \<Rightarrow> nat list \<Rightarrow> nat list \<Rightarrow> real list list \<Rightarrow> nat list \<Rightarrow> real list
     \<Rightarrow> error + real list" where
  "integrate_loop wet_delays indices steps t_points_l [] delays = Inr delays"
| "integrate_loop wet_delays indices steps t_points_l (i # rest) delays =
     (let start = indices ! i;
          len = steps ! i;
          chunk = take len (drop start wet_delays);
          t_points = t_points_l ! i
      in case trapz chunk t_points of
           Inl e \<Rightarrow> Inl e
         | Inr v \<Rightarrow>
             integrate_loop wet_delays indices steps t_points_l rest
               (delays[i := (1 / 1000000) * v]))"

definition apply_correction :: "correction \<Rightarrow> real list \<Rightarrow> error + real list" where
  \<comment> \<open>\<^verbatim>\<open>delays *= correction\<close>, in place: the result has the shape of \<open>delays\<close>\<close>
  "apply_correction c delays =
     (case c of
        NoCorrection \<Rightarrow> Inr delays
      | Correction1 cs \<Rightarrow>
          (if length cs = length delays then Inr (map (\<lambda>i. delays ! i * cs ! i) [0..<length delays])
           else if length cs = 1 then Inr (map (\<lambda>d. d * cs ! 0) delays)
           else Inl (ValueError ''operands could not be broadcast together''))
      | Correction2 cs \<Rightarrow> Inl (ValueError ''non-broadcastable output operand''))"

text \<open>
  \<^verbatim>\<open>_common_delay\<close> in parts. \<open>integrate_rays\<close> is its middle, from the lengths of
  the look vectors to the end of the second loop (lines 68 to 103), and begins with the
  sampler \<open>sample_rays\<close>, which ends with the first loop; \<open>common_delay\<close> is the
  whole function: the choice of the look vectors and of the correction (lines 56 to 66), the
  middle, and the correction applied (lines 105 to 109). The three coordinate arrays are
  columns of one array in every caller of this file; the model rejects arrays of different
  lengths, where NumPy would still broadcast an array of length one. The correction of
  projection mode is a quotient by \<open>cosd\<close>: where \<open>cosd\<close> of an entry is 0 the code's factor is
  infinite and is no real number, the value of \<open>1 / 0\<close> here says nothing about it, and the
  statements about projection mode below exclude such entries.
\<close>

definition sample_rays ::
  "geo \<Rightarrow> real list \<Rightarrow> real list \<Rightarrow> real list \<Rightarrow> vec3 list
     \<Rightarrow> error + (nat \<times> real list \<times> vec3 list) list" where
  \<comment> \<open>lines 68 to 85: lengths, step counts, start positions, unit directions, the first loop\<close>
  "sample_rays g lats lons heights look_vecs =
     (let lengths = map norm3 look_vecs;
          steps0 = map (\<lambda>l. nat \<lceil>l / STEP\<rceil>) lengths;
          start_positions = map (\<lambda>i. lla2ecef g (lats ! i) (lons ! i) (heights ! i)) [0..<length lats];
          scaled_look_vecs = map (\<lambda>i. sdiv (look_vecs ! i) (lengths ! i)) [0..<length look_vecs]
      in ray_loop g start_positions lengths steps0 scaled_look_vecs [0..<length steps0])"

definition integrate_rays ::
  "geo \<Rightarrow> (vec3 list \<Rightarrow> error + real list) \<Rightarrow> real list \<Rightarrow> real list \<Rightarrow> real list
     \<Rightarrow> vec3 list \<Rightarrow> error + real list" where
  "integrate_rays g delay lats lons heights look_vecs =
     (case sample_rays g lats lons heights look_vecs of
         Inl e \<Rightarrow> Inl e
       | Inr rays \<Rightarrow>
      let t_points_l = map (\<lambda>r. fst (snd r)) rays;
          positions_l = map (\<lambda>r. snd (snd r)) rays;
          steps = map fst rays
      in
      (case concatenate positions_l of
         Inl e \<Rightarrow> Inl e
       | Inr positions_a \<Rightarrow>
      (case delay positions_a of
         Inl e \<Rightarrow> Inl e
       | Inr wet_delays \<Rightarrow>
      let indices = (roll1 (cumsum steps))[0 := 0]
      in integrate_loop wet_delays indices steps t_points_l [0..<length steps]
           (replicate (length lats) 0))))"

definition common_delay ::
  "geo \<Rightarrow> (vec3 list \<Rightarrow> error + real list) \<Rightarrow> real list \<Rightarrow> real list \<Rightarrow> real list
     \<Rightarrow> look \<Rightarrow> bool \<Rightarrow> error + real list" where
  "common_delay g delay lats lons heights look_vecs0 raytrace =
     (case (if raytrace then Inr (NoCorrection, look_vecs0)
            else (case look_vecs0 of
                    Zenith \<Rightarrow> Inl TypeError
                  | Scalars xs \<Rightarrow> Inr (Correction1 (map (\<lambda>x. 1 / cosd x) xs), Zenith)
                  | Vectors vs \<Rightarrow>
                      Inr (Correction2 (map (\<lambda>v. case v of (a, b, c) \<Rightarrow>
                             (1 / cosd a, 1 / cosd b, 1 / cosd c)) vs), Zenith))) of
        Inl e \<Rightarrow> Inl e
      | Inr (correction, look_vecs1) \<Rightarrow>
     if \<not> (length lons = length lats \<and> length heights = length lats)
     then Inl (ValueError ''operands could not be broadcast together'')
     else
     (case (case look_vecs1 of
              Zenith \<Rightarrow> Inr (zenith_vecs g lats lons heights)
            | Vectors vs \<Rightarrow> Inr vs
            | Scalars xs \<Rightarrow> Inl TypeError) of
        Inl e \<Rightarrow> Inl e
      | Inr look_vecs \<Rightarrow>
     (case integrate_rays g delay lats lons heights look_vecs of
        Inl e \<Rightarrow> Inl e
      | Inr delays \<Rightarrow> apply_correction correction delays)))"

text \<open>
  The weather model is an external collaborator with two batch queries; each takes the
  positions of all the samples of a call and answers with one value per position, or
  raises.
\<close>

record weather =
  wm_hydrostatic_delay :: "vec3 list \<Rightarrow> error + real list"
  wm_wet_delay :: "vec3 list \<Rightarrow> error + real list"

definition wet_delay ::
  "geo \<Rightarrow> weather \<Rightarrow> real list \<Rightarrow> real list \<Rightarrow> real list \<Rightarrow> look \<Rightarrow> bool \<Rightarrow> error + real list" where
  "wet_delay g w lats lons heights look_vecs raytrace =
     common_delay g (wm_wet_delay w) lats lons heights look_vecs raytrace"

definition hydrostatic_delay ::
  "geo \<Rightarrow> weather \<Rightarrow> real list \<Rightarrow> real list \<Rightarrow> real list \<Rightarrow> look \<Rightarrow> bool \<Rightarrow> error + real list" where
  "hydrostatic_delay g w lats lons heights look_vecs raytrace =
     common_delay g (wm_hydrostatic_delay w) lats lons heights look_vecs raytrace"

subsection \<open>Parallel dispatch\<close>

text \<open>
  A job is a component name and a half-open index range. The job lists are generators
  in the source: an index error while an item is produced surfaces in \<open>parmap\<close>, when the
  queue is filled and before any thread starts, and reaches the caller. The boundaries
  of the slices are \<^verbatim>\<open>np.linspace(0, n, hydro_procs + 1, dtype=int)\<close>, which truncates
  products of doubles; \<open>dispatch_jobs\<close> takes the floor of the exact values. The two agree
  on the number of boundaries and on the first and the last one, and can differ by one at a
  boundary in between (28 workers and 122 points: 60 in the code where the exact floor is
  61).
\<close>

type_synonym job = "string \<times> nat \<times> nat"

definition array_get :: "'a list \<Rightarrow> nat \<Rightarrow> error + 'a" where
  "array_get xs i = (if i < length xs then Inr (xs ! i) else Inl IndexError)"

fun build_jobs :: "string \<Rightarrow> nat list \<Rightarrow> nat list \<Rightarrow> error + job list" where
  "build_jobs ty hindices [] = Inr []"
| "build_jobs ty hindices (i # rest) =
     (case array_get hindices i of
        Inl e \<Rightarrow> Inl e
      | Inr a \<Rightarrow>
          (case array_get hindices (i + 1) of
             Inl e \<Rightarrow> Inl e
           | Inr b \<Rightarrow>
               (case build_jobs ty hindices rest of
                  Inl e \<Rightarrow> Inl e
                | Inr js \<Rightarrow> Inr ((ty, a, b) # js))))"

definition slice :: "'a list \<Rightarrow> nat \<Rightarrow> nat \<Rightarrow> 'a list" where
  \<comment> \<open>\<^verbatim>\<open>xs[start:end]\<close> for indices that are not negative\<close>
  "slice xs start stop = take (stop - start) (drop start xs)"

text \<open>
  The thread pool, made sequential. The queue is first in, first out, and every thread
  runs the same loop: take the next job, run it, store the answer at the job's index. An
  exception in the job ends the thread that took it (nothing catches it, and nothing is
  stored); the other threads go on. So the job at the head of the queue is run exactly when
  fewer jobs have raised before it than there are threads, whichever thread takes which
  job. \<open>live\<close> counts the threads that have not taken a raising job. The pool with its
  threads moving in any order is defined further down, and every run of it is shown to end
  with the answers computed here (\<open>pool_schedule_independent\<close>, \<open>pool_terminates\<close>).
\<close>

fun parmap_run ::
  "('j \<Rightarrow> error + 'a) \<Rightarrow> (nat \<times> 'j) list \<Rightarrow> nat \<Rightarrow> 'a option list \<Rightarrow> 'a option list" where
  "parmap_run f [] live answers = answers"
| "parmap_run f ((i, elem) # q) live answers =
     (if live = 0 then answers
      else case f elem of
             Inl e \<Rightarrow> parmap_run f q (live - 1) answers
           | Inr v \<Rightarrow> parmap_run f q live (answers[i := Some v]))"

definition parmap :: "nat \<Rightarrow> ('j \<Rightarrow> error + 'a) \<Rightarrow> 'j list \<Rightarrow> 'a option list" where
  \<comment> \<open>the first argument is \<^verbatim>\<open>os.cpu_count()\<close>, the number of threads\<close>
  "parmap cpu_count f i =
     parmap_run f (zip [0..<length i] i) cpu_count (replicate (length i) None)"

definition concatenate_answers :: "real list option list \<Rightarrow> error + real list" where
  \<comment> \<open>\<^verbatim>\<open>np.concatenate\<close> of a slice of the answers, where \<open>None\<close> is no array\<close>
  "concatenate_answers rs =
     (if rs = [] then Inl (ValueError ''need at least one array to concatenate'')
      else if None \<in> set rs then Inl (ValueError ''zero-dimensional arrays cannot be concatenated'')
      else Inr (concat (map the rs)))"

fun group3 :: "real list \<Rightarrow> vec3 list" where
  "group3 (a # b # c # rest) = (a, b, c) # group3 rest"
| "group3 _ = []"

definition reshape3 :: "look \<Rightarrow> error + look" where
  \<comment> \<open>\<^verbatim>\<open>los.reshape(-1, 3)\<close>\<close>
  "reshape3 los =
     (case los of
        Zenith \<Rightarrow> Inr Zenith
      | Vectors vs \<Rightarrow> Inr (Vectors vs)
      | Scalars xs \<Rightarrow>
          (if length xs mod 3 = 0 then Inr (Vectors (group3 xs))
           else Inl (ValueError ''cannot reshape array'')))"

definition flatten :: "look \<Rightarrow> look" where
  \<comment> \<open>\<^verbatim>\<open>los.flatten()\<close>\<close>
  "flatten los =
     (case los of
        Zenith \<Rightarrow> Zenith
      | Vectors vs \<Rightarrow> Scalars (concat (map (\<lambda>v. case v of (a, b, c) \<Rightarrow> [a, b, c]) vs))
      | Scalars xs \<Rightarrow> Scalars xs)"

definition go ::
  "geo \<Rightarrow> weather \<Rightarrow> real list \<Rightarrow> real list \<Rightarrow> real list \<Rightarrow> look \<Rightarrow> bool \<Rightarrow> job
     \<Rightarrow> error + real list" where
  "go g w lats lons hts los raytrace job =
     (case job of (job_type, start, stop) \<Rightarrow>
        let my_los = (case los of
                        Zenith \<Rightarrow> Zenith
                      | Vectors vs \<Rightarrow> Vectors (slice vs start stop)
                      | Scalars xs \<Rightarrow> Scalars (slice xs start stop))
        in if job_type = ''hydro''
           then hydrostatic_delay g w (slice lats start stop) (slice lons start stop)
                  (slice hts start stop) my_los raytrace
           else if job_type = ''wet''
           then wet_delay g w (slice lats start stop) (slice lons start stop)
                  (slice hts start stop) my_los raytrace
           else Inl (ValueError (''Unknown job type '' @ job_type)))"

text \<open>
  \<open>delay_from_grid\<close> on the flattened list of points; the shape that the source saves
  and restores does not touch the values. The number of processing units is the first
  argument after the geometry.
\<close>

definition prepare_los :: "look \<Rightarrow> bool \<Rightarrow> error + look" where
  \<comment> \<open>lines 180 to 184: vectors when ray tracing, scalars otherwise, \<open>Zenith\<close> untouched\<close>
  "prepare_los los raytrace =
     (if los \<noteq> Zenith then (if raytrace then reshape3 los else Inr (flatten los))
      else Inr los)"

definition dispatch_jobs :: "nat \<Rightarrow> nat \<Rightarrow> error + job list" where
  \<comment> \<open>lines 189 to 202: the jobs of a parallel call over \<open>n\<close> points\<close>
  "dispatch_jobs cpu_count n =
     (let num_procs = cpu_count;
          hydro_procs = num_procs div 2;
          wet_procs = num_procs - hydro_procs;
          hindices = map (\<lambda>x. nat \<lfloor>x\<rfloor>) (linspace 0 (real n) (hydro_procs + 1))
      in (case build_jobs ''hydro'' hindices [0..<hydro_procs] of
            Inl e \<Rightarrow> Inl e
          | Inr hjobs \<Rightarrow>
         (case build_jobs ''wet'' hindices [0..<wet_procs] of
            Inl e \<Rightarrow> Inl e
          | Inr wjobs \<Rightarrow> Inr (hjobs @ wjobs))))"

definition delay_from_grid ::
  "geo \<Rightarrow> nat \<Rightarrow> weather \<Rightarrow> vec3 list \<Rightarrow> look \<Rightarrow> bool \<Rightarrow> bool
     \<Rightarrow> error + (real list \<times> real list)" where
  "delay_from_grid g cpu_count w llas los0 parallel raytrace =
     (case prepare_los los0 raytrace of
        Inl e \<Rightarrow> Inl e
      | Inr los \<Rightarrow>
     let lats = map fst llas;
         lons = map (\<lambda>p. fst (snd p)) llas;
         hts = map (\<lambda>p. snd (snd p)) llas
     in
     (case (if parallel then
              let hydro_procs = cpu_count div 2
              in (case dispatch_jobs cpu_count (length llas) of
                    Inl e \<Rightarrow> Inl e
                  | Inr jobs \<Rightarrow>
                 let result = parmap cpu_count (go g w lats lons hts los raytrace) jobs
                 in (case concatenate_answers (take hydro_procs result) of
                       Inl e \<Rightarrow> Inl e
                     | Inr hydro \<Rightarrow>
                    (case concatenate_answers (drop hydro_procs result) of
                       Inl e \<Rightarrow> Inl e
                     | Inr wet \<Rightarrow> Inr (hydro, wet))))
            else
              (case hydrostatic_delay g w lats lons hts los raytrace of
                 Inl e \<Rightarrow> Inl e
               | Inr hydro \<Rightarrow>
              (case wet_delay g w lats lons hts los raytrace of
                 Inl e \<Rightarrow> Inl e
               | Inr wet \<Rightarrow> Inr (hydro, wet)))) of
        Inl e \<Rightarrow> Inl e
      | Inr (hydro, wet) \<Rightarrow>
          if length hydro = length wet then Inr (hydro, wet)
          else Inl (ValueError ''all input arrays must have the same shape'')))"

subsection \<open>The thread pool, step by step\<close>

text \<open>
  The pool as it runs: the queue, the answers, and one state per thread. A thread that
  is idle takes the job at the head of the queue, or finishes when the queue is empty; a
  thread that runs a job stores the answer and is idle again, or finishes when the job
  raises. Any thread may move at any time. The functions after the step relation measure a
  state: the threads that will come back for another job, the answers that running jobs
  are about to store, the indices in flight, and the answers that \<open>parmap_run\<close> predicts
  from the state. They are used to show that every run ends and ends with the answers of
  \<open>parmap\<close>.
\<close>

datatype 'j thread = Idle | Running nat 'j | Finished

inductive pool_step ::
  "('j \<Rightarrow> error + 'a) \<Rightarrow> (nat \<times> 'j) list \<times> 'a option list \<times> 'j thread list
     \<Rightarrow> (nat \<times> 'j) list \<times> 'a option list \<times> 'j thread list \<Rightarrow> bool"
  for f :: "'j \<Rightarrow> error + 'a" where
  take_job: "t < length ths \<Longrightarrow> ths ! t = Idle \<Longrightarrow>
     pool_step f ((i, x) # q, answers, ths) (q, answers, ths[t := Running i x])"
| queue_empty: "t < length ths \<Longrightarrow> ths ! t = Idle \<Longrightarrow>
     pool_step f ([], answers, ths) ([], answers, ths[t := Finished])"
| store_answer: "t < length ths \<Longrightarrow> ths ! t = Running i x \<Longrightarrow> f x = Inr v \<Longrightarrow>
     pool_step f (q, answers, ths) (q, answers[i := Some v], ths[t := Idle])"
| job_raises: "t < length ths \<Longrightarrow> ths ! t = Running i x \<Longrightarrow> f x = Inl e \<Longrightarrow>
     pool_step f (q, answers, ths) (q, answers, ths[t := Finished])"

fun will_return :: "('j \<Rightarrow> error + 'a) \<Rightarrow> 'j thread \<Rightarrow> bool" where
  "will_return f Idle = True"
| "will_return f (Running i x) = (case f x of Inl e \<Rightarrow> False | Inr v \<Rightarrow> True)"
| "will_return f Finished = False"

definition live_count :: "('j \<Rightarrow> error + 'a) \<Rightarrow> 'j thread list \<Rightarrow> nat" where
  "live_count f ths = length (filter (will_return f) ths)"

fun thread_write :: "('j \<Rightarrow> error + 'a) \<Rightarrow> 'j thread \<Rightarrow> 'a option list \<Rightarrow> 'a option list" where
  "thread_write f (Running i x) a = (case f x of Inl e \<Rightarrow> a | Inr v \<Rightarrow> a[i := Some v])"
| "thread_write f _ a = a"

definition pending :: "('j \<Rightarrow> error + 'a) \<Rightarrow> 'j thread list \<Rightarrow> 'a option list \<Rightarrow> 'a option list" where
  "pending f ths a = foldr (thread_write f) ths a"

fun thread_ids :: "'j thread \<Rightarrow> nat list" where
  "thread_ids (Running i x) = [i]"
| "thread_ids _ = []"

definition running_ids :: "'j thread list \<Rightarrow> nat list" where
  "running_ids ths = concat (map thread_ids ths)"

fun outcome ::
  "('j \<Rightarrow> error + 'a) \<Rightarrow> (nat \<times> 'j) list \<times> 'a option list \<times> 'j thread list \<Rightarrow> 'a option list" where
  "outcome f (q, answers, ths) = pending f ths (parmap_run f q (live_count f ths) answers)"

fun pool_inv :: "(nat \<times> 'j) list \<times> 'a option list \<times> 'j thread list \<Rightarrow> bool" where
  "pool_inv (q, answers, ths) = distinct (map fst q @ running_ids ths)"

fun thread_weight :: "'j thread \<Rightarrow> nat" where
  "thread_weight Idle = 1"
| "thread_weight (Running i x) = 2"
| "thread_weight Finished = 0"

fun pool_measure :: "(nat \<times> 'j) list \<times> 'a option list \<times> 'j thread list \<Rightarrow> nat" where
  "pool_measure (q, answers, ths) = 2 * length q + sum_list (map thread_weight ths)"

fun pool_final :: "(nat \<times> 'j) list \<times> 'a option list \<times> 'j thread list \<Rightarrow> bool" where
  "pool_final (q, answers, ths) = list_all (\<lambda>th. th = Finished) ths"

subsection \<open>The file-backed entry point\<close>

text \<open>
  A raster read by \<^verbatim>\<open>util.gdal_open\<close> is an array: its shape and its values in
  row-major order. Reading the files is outside the model, so \<open>delay_from_files\<close> takes the
  arrays. \<^verbatim>\<open>losreader.los_to_lv\<close> is not under \<^verbatim>\<open>src/\<close> and is a parameter.
\<close>

record ndarray =
  shape :: "nat list"
  data :: "real list"

definition shape_message :: "nat list \<Rightarrow> nat list \<Rightarrow> nat list \<Rightarrow> string" where
  \<comment> \<open>three adjacent literals, of which only the first is an f-string\<close>
  "shape_message lats_shape lons_shape hts_shape =
     ''lat, lon, and ht should have the same shape, but ''
     @ ''instead lat had shape {lats.shape}, lon had shape ''
     @ ''{lons.shape}, and ht had shape {hts.shape}''"

definition delay_from_files ::
  "geo \<Rightarrow> nat \<Rightarrow> (ndarray \<Rightarrow> ndarray \<Rightarrow> ndarray \<Rightarrow> ndarray \<Rightarrow> ndarray \<Rightarrow> real \<Rightarrow> error + real list)
     \<Rightarrow> weather \<Rightarrow> ndarray \<Rightarrow> ndarray \<Rightarrow> ndarray \<Rightarrow> bool \<Rightarrow> (ndarray \<times> ndarray) option \<Rightarrow> bool
     \<Rightarrow> error + (ndarray \<times> ndarray)" where
  "delay_from_files g cpu_count los_to_lv w lats lons hts parallel los_file raytrace =
     (case (case los_file of
              None \<Rightarrow> Inr Zenith
            | Some (incidence, heading) \<Rightarrow>
                (if raytrace then
                   (case los_to_lv incidence heading lats lons hts (zref g) of
                      Inl e \<Rightarrow> Inl e
                    | Inr lv \<Rightarrow> reshape3 (Scalars lv))
                 else Inr (Scalars (data incidence)))) of
        Inl e \<Rightarrow> Inl e
      | Inr los \<Rightarrow>
          if \<not> (shape lats = shape lons \<and> shape lons = shape hts)
          then Inl (ValueError (shape_message (shape lats) (shape lons) (shape hts)))
          else
            let llas = map (\<lambda>i. (data lats ! i, data lons ! i, data hts ! i)) [0..<length (data lats)]
            in (case delay_from_grid g cpu_count w llas los parallel raytrace of
                  Inl e \<Rightarrow> Inl e
                | Inr (hydro, wet) \<Rightarrow>
                    Inr (\<lparr>shape = shape lats, data = hydro\<rparr>, \<lparr>shape = shape lats, data = wet\<rparr>)))"

subsection \<open>The delay of one ray, for reference\<close>

text \<open>
  What the trapezoidal rule computes on arrays of equal length, and the delay of a single
  ray under a weather model that answers position by position with \<open>q\<close>. The batch
  function is compared with these below.
\<close>

definition trapz_sum :: "real list \<Rightarrow> real list \<Rightarrow> real" where
  "trapz_sum y x =
     sum_list (map (\<lambda>i. (x ! Suc i - x ! i) * (y ! Suc i + y ! i) / 2) [0..<length x - 1])"

definition ray_delay :: "geo \<Rightarrow> (vec3 \<Rightarrow> real) \<Rightarrow> vec3 \<Rightarrow> vec3 \<Rightarrow> real" where
  "ray_delay g q start_position look_vec =
     (let len = norm3 look_vec;
          r = ray_body g start_position len (nat \<lceil>len / STEP\<rceil>) (sdiv look_vec len)
      in (1 / 1000000) * trapz_sum (map q (snd (snd r))) (fst (snd r)))"

definition zenith_ray_delay :: "geo \<Rightarrow> (vec3 \<Rightarrow> real) \<Rightarrow> vec3 \<Rightarrow> real" where
  "zenith_ray_delay g q p =
     (case p of (lat, lon, h) \<Rightarrow>
        ray_delay g q (lla2ecef g lat lon h) (smul (zref g - h) (up_vec lat lon)))"

subsection \<open>A concrete geometry\<close>

text \<open>
  A spherical Earth of radius \<open>R\<close>, used to evaluate the model at concrete points: a
  point at height \<open>h\<close> lies \<open>R + h\<close> from the centre along the outward normal. Of the
  result of \<open>ecef2lla\<close> the code reads the height only, so the two angles are left at 0.
\<close>

definition sphere_geo :: "real \<Rightarrow> real \<Rightarrow> geo" where
  "sphere_geo R zr =
     \<lparr> lla2ecef = (\<lambda>lat lon h. smul (R + h) (up_vec lat lon)),
       ecef2lla = (\<lambda>p. (0, 0, norm3 p - R)),
       zref = zr \<rparr>"

text \<open>
  The same sphere with heights that come out too large by \<open>e\<close>: a stand-in for a height
  conversion that rounds. With it the end sample of a Zenith ray, which lies on the
  reference height, is found above it.
\<close>

definition biased_geo :: "real \<Rightarrow> real \<Rightarrow> real \<Rightarrow> geo" where
  "biased_geo R zr e =
     \<lparr> lla2ecef = (\<lambda>lat lon h. smul (R + h) (up_vec lat lon)),
       ecef2lla = (\<lambda>p. (0, 0, norm3 p - R + e)),
       zref = zr \<rparr>"

text \<open>
  The inputs at which the model is evaluated below: the sphere with the mean radius of the
  Earth and a reference height of 15 km, a weather model that answers one constant per
  component, and one whose hydrostatic query raises.
\<close>

definition demo_geo :: geo where
  "demo_geo = sphere_geo 6371000 15000"

definition const_weather :: "real \<Rightarrow> real \<Rightarrow> weather" where
  "const_weather a b =
     \<lparr> wm_hydrostatic_delay = (\<lambda>ps. Inr (map (\<lambda>_. a) ps)),
       wm_wet_delay = (\<lambda>ps. Inr (map (\<lambda>_. b) ps)) \<rparr>"

definition failing_weather :: "string \<Rightarrow> real \<Rightarrow> weather" where
  "failing_weather msg b =
     \<lparr> wm_hydrostatic_delay = (\<lambda>ps. Inl (ModelError msg)),
       wm_wet_delay = (\<lambda>ps. Inr (map (\<lambda>_. b) ps)) \<rparr>"

section \<open>Properties\<close>

subsection \<open>Helpers\<close>

lemma first_index_takeWhile:
  "(if filter (\<lambda>i. P (xs ! i)) [0..<length xs] \<noteq> [] then hd (filter (\<lambda>i. P (xs ! i)) [0..<length xs])
    else length xs) = length (takeWhile (\<lambda>x. \<not> P x) xs)"
proof (induction xs)
  case Nil
  then show ?case by simp
next
  case (Cons x xs)
  have shift: "filter (\<lambda>i. P ((x # xs) ! i)) [0..<length (x # xs)]
      = (if P x then [0] else []) @ map Suc (filter (\<lambda>i. P (xs ! i)) [0..<length xs])"
    by (simp add: upt_conv_Cons map_Suc_upt [symmetric] filter_map comp_def del: upt_Suc)
  show ?case
  proof (cases "P x")
    case True
    then show ?thesis unfolding shift by simp
  next
    case False
    then show ?thesis unfolding shift using Cons.IH by (auto simp: hd_map split: if_splits)
  qed
qed

lemma too_high_takeWhile:
  "too_high g ps zr = length (takeWhile (\<lambda>p. \<not> height_of g p > zr) ps)"
proof -
  have "too_high g ps zr =
     (if filter (\<lambda>i. height_of g (ps ! i) > zr) [0..<length ps] \<noteq> []
      then hd (filter (\<lambda>i. height_of g (ps ! i) > zr) [0..<length ps]) else length ps)"
  proof -
    have "filter (\<lambda>i. snd (snd (map (ecef2lla g) ps ! i)) > zr) [0..<length ps]
        = filter (\<lambda>i. height_of g (ps ! i) > zr) [0..<length ps]"
      by (rule filter_cong) (auto simp: height_of_def)
    then show ?thesis unfolding too_high_def Let_def by simp
  qed
  then show ?thesis using first_index_takeWhile [of "\<lambda>p. height_of g p > zr" ps] by simp
qed

lemma linspace_length: "length (linspace a b n) = n"
  by (simp add: linspace_def)

lemma linspace_nth: "i < n \<Longrightarrow> 2 \<le> n \<Longrightarrow> linspace a b n ! i = a + real i * ((b - a) / real (n - 1))"
  by (simp add: linspace_def)

lemma norm3_axis: "norm3 (x, 0, 0) = \<bar>x\<bar>"
  by (simp add: norm3_def)

lemma upt3: "[0..<3] = [0, 1, 2]"
  by (simp add: upt_rec)

lemma steps_ge1: assumes "0 < l" shows "1 \<le> nat \<lceil>l / STEP\<rceil>"
proof -
  have "0 < l / STEP" using assms by (simp add: STEP_def)
  then show ?thesis by (simp add: Suc_le_eq)
qed

lemma steps_one_iff: assumes "0 < l" shows "nat \<lceil>l / STEP\<rceil> = 1 \<longleftrightarrow> l \<le> STEP"
proof -
  have pos: "0 < l / STEP" using assms by (simp add: STEP_def)
  have "nat \<lceil>l / STEP\<rceil> = 1 \<longleftrightarrow> \<lceil>l / STEP\<rceil> = 1" by linarith
  also have "\<dots> \<longleftrightarrow> 0 < l / STEP \<and> l / STEP \<le> 1" by (simp add: ceiling_eq_iff)
  also have "\<dots> \<longleftrightarrow> l \<le> STEP" using pos by (simp add: STEP_def)
  finally show ?thesis .
qed

lemma spacing_bounds:
  assumes "0 < l" and "2 \<le> nat \<lceil>l / STEP\<rceil>"
  shows "STEP < l / real (nat \<lceil>l / STEP\<rceil> - 1)" and "l / real (nat \<lceil>l / STEP\<rceil> - 1) \<le> 2 * STEP"
proof -
  define n where "n = nat \<lceil>l / STEP\<rceil>"
  have n2: "2 \<le> n" using assms(2) by (simp add: n_def)
  have c: "real n = of_int \<lceil>l / STEP\<rceil>" using n2 unfolding n_def by simp
  have up: "l / STEP \<le> real n" unfolding c by (rule le_of_int_ceiling)
  have lo: "real n - 1 < l / STEP" unfolding c using ceiling_correct [of "l / STEP"] by linarith
  have m: "real (n - 1) = real n - 1" using n2 by (simp add: of_nat_diff)
  have mpos: "0 < real (n - 1)" using n2 by simp
  have "STEP * real (n - 1) < l" using lo unfolding m by (simp add: STEP_def field_simps)
  then show "STEP < l / real (nat \<lceil>l / STEP\<rceil> - 1)"
    using mpos unfolding n_def [symmetric] by (simp add: field_simps)
  have "l \<le> STEP * real n" using up by (simp add: STEP_def field_simps)
  moreover have "real n \<le> 2 * real (n - 1)" using n2 unfolding m by simp
  ultimately have "l \<le> 2 * STEP * real (n - 1)" by (simp add: STEP_def)
  then show "l / real (nat \<lceil>l / STEP\<rceil> - 1) \<le> 2 * STEP"
    using mpos unfolding n_def [symmetric] by (simp add: field_simps)
qed

lemma ray_body_takeWhile:
  "ray_body g s l n d =
     (length (takeWhile (\<lambda>p. height_of g p \<le> zref g) (map (\<lambda>t. vadd s (smul t d)) (linspace 0 l n))),
      take (length (takeWhile (\<lambda>p. height_of g p \<le> zref g) (map (\<lambda>t. vadd s (smul t d)) (linspace 0 l n))))
        (linspace 0 l n),
      takeWhile (\<lambda>p. height_of g p \<le> zref g) (map (\<lambda>t. vadd s (smul t d)) (linspace 0 l n)))"
proof -
  have nP: "(\<lambda>p. \<not> height_of g p > zref g) = (\<lambda>p. height_of g p \<le> zref g)"
    by (auto simp: fun_eq_iff)
  show ?thesis
    unfolding ray_body_def Let_def too_high_takeWhile nP
    by (simp only: takeWhile_eq_take [symmetric])
qed

lemma ray_loop_map:
  "\<forall>i \<in> set is. i < length sp \<Longrightarrow>
   ray_loop g sp ls st dv is = Inr (map (\<lambda>i. ray_body g (sp ! i) (ls ! i) (st ! i) (dv ! i)) is)"
  by (induction "is") simp_all

lemma ray_loop_index_error:
  "\<exists>i \<in> set is. length sp \<le> i \<Longrightarrow> ray_loop g sp ls st dv is = Inl IndexError"
  by (induction "is") (fastforce split: sum.splits)+

lemma ray_body_lengths:
  "length (fst (snd (ray_body g s l n d))) = fst (ray_body g s l n d)"
  "length (snd (snd (ray_body g s l n d))) = fst (ray_body g s l n d)"
  "fst (ray_body g s l n d) \<le> n"
proof -
  let ?ps = "map (\<lambda>t. vadd s (smul t d)) (linspace 0 l n)"
  let ?k = "length (takeWhile (\<lambda>p. height_of g p \<le> zref g) ?ps)"
  have "?k \<le> length ?ps" by (rule length_takeWhile_le)
  then have kn: "?k \<le> n" by (simp add: linspace_length)
  show "length (fst (snd (ray_body g s l n d))) = fst (ray_body g s l n d)"
    using kn by (simp add: ray_body_takeWhile linspace_length)
  show "length (snd (snd (ray_body g s l n d))) = fst (ray_body g s l n d)"
    by (simp add: ray_body_takeWhile)
  show "fst (ray_body g s l n d) \<le> n"
    using kn by (simp add: ray_body_takeWhile)
qed

lemma length_cumsum_from: "length (cumsum_from acc xs) = length xs"
  by (induction xs arbitrary: acc) simp_all

lemma cumsum_from_nth:
  "i < length xs \<Longrightarrow> cumsum_from acc xs ! i = acc + sum_list (take (Suc i) xs)"
proof (induction xs arbitrary: acc i)
  case Nil
  then show ?case by simp
next
  case (Cons x xs)
  show ?case
  proof (cases i)
    case 0
    then show ?thesis by simp
  next
    case (Suc j)
    with Cons.prems have "j < length xs" by simp
    from Cons.IH [OF this, of "acc + x"] Suc show ?thesis by simp
  qed
qed

lemma length_roll1: "length (roll1 xs) = length xs"
  by (cases xs rule: rev_cases) (simp_all add: roll1_def)

lemma indices_nth:
  assumes "i < length xs"
  shows "((roll1 (cumsum xs))[0 := 0]) ! i = sum_list (take i xs)"
proof (cases i)
  case 0
  have "length (roll1 (cumsum xs)) = length xs"
    by (simp add: length_roll1 cumsum_def length_cumsum_from)
  then show ?thesis using 0 assms by simp
next
  case (Suc j)
  have j: "j < length xs" using assms Suc by simp
  have "length (cumsum xs) = length xs" by (simp add: cumsum_def length_cumsum_from)
  then have ne: "cumsum xs \<noteq> []" using assms by auto
  have "((roll1 (cumsum xs))[0 := 0]) ! i = roll1 (cumsum xs) ! i" using Suc by simp
  also have "\<dots> = butlast (cumsum xs) ! j" using ne Suc by (simp add: roll1_def)
  also have "\<dots> = cumsum xs ! j"
    using assms Suc by (simp add: nth_butlast cumsum_def length_cumsum_from)
  also have "\<dots> = sum_list (take (Suc j) xs)"
    using j by (simp add: cumsum_def cumsum_from_nth)
  finally show ?thesis using Suc by simp
qed

lemma chunk_of_concat:
  "i < length xss \<Longrightarrow>
   take (length (xss ! i)) (drop (sum_list (take i (map length xss))) (concat xss)) = xss ! i"
proof (induction xss arbitrary: i)
  case Nil
  then show ?case by simp
next
  case (Cons xs xss)
  show ?case
  proof (cases i)
    case 0
    then show ?thesis by simp
  next
    case (Suc j)
    with Cons.prems have "j < length xss" by simp
    from Cons.IH [OF this] Suc show ?thesis by simp
  qed
qed

lemma trapz_same_length:
  assumes "length y = length x"
  shows "trapz y x = Inr (trapz_sum y x)"
proof -
  have "bmul (diff x) (pairsum y)
      = Inr (map (\<lambda>i. (x ! Suc i - x ! i) * (y ! Suc i + y ! i)) [0..<length x - 1])"
    using assms by (simp add: bmul_def diff_def pairsum_def)
  then show ?thesis
    by (simp add: trapz_def trapz_sum_def comp_def)
qed

lemma integrate_loop_fold:
  "\<forall>i \<in> set is. trapz (take (steps ! i) (drop (indices ! i) wet)) (tpl ! i) = Inr (v i) \<Longrightarrow>
   integrate_loop wet indices steps tpl is delays
     = Inr (fold (\<lambda>i d. d[i := (1 / 1000000) * v i]) is delays)"
  by (induction "is" arbitrary: delays) (simp_all add: Let_def)

lemma fold_update_upt:
  "m \<le> n \<Longrightarrow> fold (\<lambda>i d. d[i := f i]) [0..<m] (replicate n (0::real))
     = map f [0..<m] @ replicate (n - m) 0"
proof (induction m)
  case 0
  then show ?case by simp
next
  case (Suc m)
  then have IH: "fold (\<lambda>i d. d[i := f i]) [0..<m] (replicate n 0) = map f [0..<m] @ replicate (n - m) 0"
    by simp
  have r: "replicate (n - m) (0::real) = 0 # replicate (n - Suc m) 0"
    using Suc.prems by (cases "n - m") simp_all
  show ?case
    by (simp add: IH list_update_append r)
qed

lemma integrate_rays_pointwise:
  assumes delay: "\<And>ps. delay ps = Inr (map q ps)"
    and lv: "length lv = length lats"
    and pos: "0 < length lats"
  shows "integrate_rays g delay lats lons hts lv
     = Inr (map (\<lambda>i. ray_delay g q (lla2ecef g (lats ! i) (lons ! i) (hts ! i)) (lv ! i))
          [0..<length lats])"
proof -
  define N where "N = length lats"
  define R where "R = (\<lambda>i. ray_body g (lla2ecef g (lats ! i) (lons ! i) (hts ! i)) (norm3 (lv ! i))
      (nat \<lceil>norm3 (lv ! i) / STEP\<rceil>) (sdiv (lv ! i) (norm3 (lv ! i))))"
  define sp where "sp = map (\<lambda>i. lla2ecef g (lats ! i) (lons ! i) (hts ! i)) [0..<length lats]"
  define ls where "ls = map norm3 lv"
  define st where "st = map (\<lambda>l. nat \<lceil>l / STEP\<rceil>) ls"
  define dv where "dv = map (\<lambda>i. sdiv (lv ! i) (ls ! i)) [0..<length lv]"
  define rays where "rays = map R [0..<N]"
  define pl where "pl = map (\<lambda>r. snd (snd r)) rays"
  define tpl where "tpl = map (\<lambda>r. fst (snd r)) rays"
  define steps where "steps = map fst rays"
  define v where "v = (\<lambda>i. trapz_sum (map q (snd (snd (R i)))) (fst (snd (R i))))"
  have lenst: "length st = N" by (simp add: st_def ls_def lv N_def)
  have "ray_loop g sp ls st dv [0..<length st]
      = Inr (map (\<lambda>i. ray_body g (sp ! i) (ls ! i) (st ! i) (dv ! i)) [0..<length st])"
    by (rule ray_loop_map) (simp add: lenst sp_def N_def)
  also have "map (\<lambda>i. ray_body g (sp ! i) (ls ! i) (st ! i) (dv ! i)) [0..<length st] = rays"
    unfolding rays_def lenst
    by (rule map_cong) (simp_all add: R_def sp_def ls_def st_def dv_def lv N_def)
  finally have loop: "ray_loop g sp ls st dv [0..<length st] = Inr rays" .
  have lenrays: "length rays = N" by (simp add: rays_def)
  have plne: "pl \<noteq> []" using pos by (auto simp: pl_def rays_def N_def)
  have cc: "concatenate pl = Inr (concat pl)" using plne by (simp add: concatenate_def)
  have steps_len: "steps = map length pl"
    by (simp add: steps_def pl_def rays_def R_def ray_body_lengths)
  have lensteps: "length steps = N" by (simp add: steps_def lenrays)
  have tr: "trapz (take (steps ! i) (drop (((roll1 (cumsum steps))[0 := 0]) ! i) (map q (concat pl)))) (tpl ! i)
      = Inr (v i)" if "i < N" for i
  proof -
    have i1: "i < length steps" and i2: "i < length pl" using that lensteps by (simp_all add: pl_def lenrays)
    have "take (steps ! i) (drop (((roll1 (cumsum steps))[0 := 0]) ! i) (map q (concat pl)))
        = map q (take (length (pl ! i)) (drop (sum_list (take i (map length pl))) (concat pl)))"
      using i1 i2 by (simp add: indices_nth take_map drop_map steps_len)
    also have "\<dots> = map q (pl ! i)" using i2 by (simp add: chunk_of_concat)
    finally have chunk: "take (steps ! i) (drop (((roll1 (cumsum steps))[0 := 0]) ! i) (map q (concat pl)))
        = map q (pl ! i)" .
    have pli: "pl ! i = snd (snd (R i))" and tpli: "tpl ! i = fst (snd (R i))"
      using that by (simp_all add: pl_def tpl_def rays_def)
    have "length (map q (pl ! i)) = length (tpl ! i)"
      unfolding pli tpli by (simp add: R_def ray_body_lengths)
    from trapz_same_length [OF this] show ?thesis
      unfolding chunk by (simp add: v_def pli tpli)
  qed
  have il: "integrate_loop (map q (concat pl)) ((roll1 (cumsum steps))[0 := 0]) steps tpl [0..<length steps]
        (replicate (length lats) 0)
      = Inr (fold (\<lambda>i d. d[i := (1 / 1000000) * v i]) [0..<length steps] (replicate (length lats) 0))"
    by (rule integrate_loop_fold) (simp add: lensteps tr)
  have fo: "fold (\<lambda>i d. d[i := (1 / 1000000) * v i]) [0..<length steps] (replicate (length lats) 0)
      = map (\<lambda>i. (1 / 1000000) * v i) [0..<N]"
    unfolding lensteps N_def [symmetric] using fold_update_upt [of N N "\<lambda>i. (1 / 1000000) * v i"] by simp
  have res: "map (\<lambda>i. (1 / 1000000) * v i) [0..<N]
      = map (\<lambda>i. ray_delay g q (lla2ecef g (lats ! i) (lons ! i) (hts ! i)) (lv ! i)) [0..<length lats]"
    by (simp add: v_def ray_delay_def R_def Let_def N_def)
  have "integrate_rays g delay lats lons hts lv
      = integrate_loop (map q (concat pl)) ((roll1 (cumsum steps))[0 := 0]) steps tpl [0..<length steps]
        (replicate (length lats) 0)"
    unfolding integrate_rays_def sample_rays_def Let_def
      sp_def [symmetric] ls_def [symmetric] st_def [symmetric] dv_def [symmetric]
    by (simp add: loop pl_def [symmetric] tpl_def [symmetric] steps_def [symmetric] cc delay)
  then show ?thesis unfolding il fo res .
qed

lemma norm3_up_vec: "norm3 (up_vec lat lon) = 1"
proof -
  have "cosd lat * cosd lon * (cosd lat * cosd lon) + cosd lat * sind lon * (cosd lat * sind lon)
        + sind lat * sind lat
      = (cosd lat)\<^sup>2 * ((cosd lon)\<^sup>2 + (sind lon)\<^sup>2) + (sind lat)\<^sup>2"
    by (simp add: power2_eq_square algebra_simps)
  also have "\<dots> = 1"
    by (simp add: cosd_def sind_def)
  finally show ?thesis by (simp add: norm3_def up_vec_def)
qed

lemma norm3_smul: "norm3 (smul t v) = \<bar>t\<bar> * norm3 v"
proof -
  obtain a b c where v: "v = (a, b, c)" by (cases v) auto
  have "t * a * (t * a) + t * b * (t * b) + t * c * (t * c) = t\<^sup>2 * (a * a + b * b + c * c)"
    by (simp add: power2_eq_square algebra_simps)
  then show ?thesis
    by (simp add: v norm3_def smul_def real_sqrt_mult)
qed

lemma sdiv_smul: "l \<noteq> 0 \<Longrightarrow> sdiv (smul l v) l = v"
  by (cases v) (simp add: sdiv_def smul_def)

lemma vadd_smul_zero: "vadd s (smul 0 d) = s"
  by (cases s; cases d) (simp add: vadd_def smul_def)

lemma trapz_sum_short: "length x \<le> 1 \<Longrightarrow> trapz_sum y x = 0"
  by (simp add: trapz_sum_def)

lemma sum_list_const_upt: "sum_list (map (\<lambda>i. (k::real)) [0..<m]) = real m * k"
  by (induction m) (simp_all add: algebra_simps)

lemma trapz_sum_const_linspace:
  assumes "2 \<le> n" and "length ps = n"
  shows "trapz_sum (map (\<lambda>_. c) ps) (linspace 0 l n) = c * l"
proof -
  have "map (\<lambda>i. (linspace 0 l n ! Suc i - linspace 0 l n ! i)
            * (map (\<lambda>_. c) ps ! Suc i + map (\<lambda>_. c) ps ! i) / 2) [0..<n - 1]
      = map (\<lambda>i. c * l / real (n - 1)) [0..<n - 1]"
  proof (rule map_cong [OF refl])
    fix i assume "i \<in> set [0..<n - 1]"
    then have i: "Suc i < n" by auto
    have "linspace 0 l n ! Suc i - linspace 0 l n ! i = l / real (n - 1)"
      using i assms(1) by (simp add: linspace_nth algebra_simps add_divide_distrib)
    moreover have "map (\<lambda>_. c) ps ! Suc i = c" "map (\<lambda>_. c) ps ! i = c"
      using i assms(2) by simp_all
    ultimately show "(linspace 0 l n ! Suc i - linspace 0 l n ! i)
            * (map (\<lambda>_. c) ps ! Suc i + map (\<lambda>_. c) ps ! i) / 2 = c * l / real (n - 1)"
      by simp
  qed
  then have "trapz_sum (map (\<lambda>_. c) ps) (linspace 0 l n)
      = sum_list (map (\<lambda>i. c * l / real (n - 1)) [0..<n - 1])"
    unfolding trapz_sum_def linspace_length by (rule arg_cong)
  also have "\<dots> = real (n - 1) * (c * l / real (n - 1))"
    by (rule sum_list_const_upt)
  also have "\<dots> = c * l" using assms(1) by simp
  finally show ?thesis .
qed

lemma linspace_range:
  assumes "0 \<le> l" and "t \<in> set (linspace 0 l n)"
  shows "0 \<le> t \<and> t \<le> l"
proof (cases "n \<le> 1")
  case True
  then have "n = 0 \<or> n = 1" by auto
  then show ?thesis using assms by (auto simp: linspace_def)
next
  case False
  then obtain i where i: "i < n" and t: "t = real i * (l / real (n - 1))"
    using assms(2) by (auto simp: linspace_def)
  have m: "0 < real (n - 1)" using False by simp
  have "real i \<le> real (n - 1)" using i by simp
  then have "real i * (l / real (n - 1)) \<le> real (n - 1) * (l / real (n - 1))"
    using assms(1) m by (intro mult_right_mono) simp_all
  also have "\<dots> = l" using m by simp
  finally have "t \<le> l" unfolding t .
  moreover have "0 \<le> t" unfolding t using assms(1) m by simp
  ultimately show ?thesis by simp
qed

text \<open>A ray whose start is above the reference height contributes nothing.\<close>

lemma ray_body_start_high:
  assumes "zref g < height_of g s"
  shows "ray_body g s l n d = (0, [], [])"
proof (cases n)
  case 0
  then show ?thesis by (simp add: ray_body_takeWhile linspace_def)
next
  case (Suc m)
  have "linspace 0 l n = 0 # tl (linspace 0 l n)"
    using Suc by (auto simp: linspace_def upt_conv_Cons simp del: upt_Suc)
  then obtain r where r: "linspace 0 l n = 0 # r" ..
  show ?thesis
    using assms by (simp add: ray_body_takeWhile r vadd_smul_zero)
qed

lemma ray_delay_start_high:
  "zref g < height_of g s \<Longrightarrow> ray_delay g q s v = 0"
  by (simp add: ray_delay_def Let_def ray_body_start_high trapz_sum_def)

lemma ray_body_no_steps: "ray_body g s l 0 d = (0, [], [])"
  by (simp add: ray_body_takeWhile linspace_def)

lemma ray_body_all_kept:
  assumes "\<forall>t \<in> set (linspace 0 l n). height_of g (vadd s (smul t d)) \<le> zref g"
  shows "ray_body g s l n d = (n, linspace 0 l n, map (\<lambda>t. vadd s (smul t d)) (linspace 0 l n))"
proof -
  have tw: "takeWhile (\<lambda>p. height_of g p \<le> zref g) (map (\<lambda>t. vadd s (smul t d)) (linspace 0 l n))
      = map (\<lambda>t. vadd s (smul t d)) (linspace 0 l n)"
    using assms by (simp add: takeWhile_eq_all_conv)
  show ?thesis unfolding ray_body_takeWhile tw by (simp add: linspace_length)
qed

lemma ray_delay_zenith_const:
  assumes L: "0 < L"
    and below: "\<forall>t. 0 \<le> t \<and> t \<le> L \<longrightarrow> height_of g (vadd s (smul t (up_vec lat lon))) \<le> zref g"
  shows "ray_delay g (\<lambda>_. c) s (smul L (up_vec lat lon))
      = (if STEP < L then (1 / 1000000) * (c * L) else 0)"
proof -
  define n where "n = nat \<lceil>L / STEP\<rceil>"
  have len: "norm3 (smul L (up_vec lat lon)) = L"
    using L by (simp add: norm3_smul norm3_up_vec)
  have dir: "sdiv (smul L (up_vec lat lon)) L = up_vec lat lon"
    using L by (simp add: sdiv_smul)
  have "\<forall>t \<in> set (linspace 0 L n). height_of g (vadd s (smul t (up_vec lat lon))) \<le> zref g"
    using linspace_range [of L _ n] L below by auto
  then have rb: "ray_body g s L n (up_vec lat lon)
      = (n, linspace 0 L n, map (\<lambda>t. vadd s (smul t (up_vec lat lon))) (linspace 0 L n))"
    by (rule ray_body_all_kept)
  have val: "ray_delay g (\<lambda>_. c) s (smul L (up_vec lat lon))
      = (1 / 1000000) * trapz_sum (map (\<lambda>_. c) (map (\<lambda>t. vadd s (smul t (up_vec lat lon))) (linspace 0 L n)))
          (linspace 0 L n)"
    unfolding ray_delay_def Let_def len dir n_def [symmetric] rb by simp
  show ?thesis
  proof (cases "STEP < L")
    case True
    then have "\<not> L \<le> STEP" by simp
    then have "n \<noteq> 1" unfolding n_def using steps_one_iff [OF L] by simp
    moreover have "1 \<le> n" unfolding n_def using L by (rule steps_ge1)
    ultimately have n2: "2 \<le> n" by simp
    have "trapz_sum (map (\<lambda>_. c) (map (\<lambda>t. vadd s (smul t (up_vec lat lon))) (linspace 0 L n)))
          (linspace 0 L n) = c * L"
      using n2 by (rule trapz_sum_const_linspace) (simp add: linspace_length)
    then show ?thesis using True unfolding val by simp
  next
    case False
    then have "n = 1" unfolding n_def using steps_one_iff [OF L] by simp
    then have "length (linspace 0 L n) \<le> 1" by (simp add: linspace_length)
    then have "trapz_sum (map (\<lambda>_. c) (map (\<lambda>t. vadd s (smul t (up_vec lat lon))) (linspace 0 L n)))
          (linspace 0 L n) = 0"
      by (rule trapz_sum_short)
    then show ?thesis using False unfolding val by simp
  qed
qed

lemma common_delay_zenith:
  assumes delay: "\<And>ps. delay ps = Inr (map q ps)"
    and len: "length lons = length lats" "length hts = length lats"
    and pos: "0 < length lats"
  shows "common_delay g delay lats lons hts Zenith True
     = Inr (map (\<lambda>i. zenith_ray_delay g q (lats ! i, lons ! i, hts ! i)) [0..<length lats])"
proof -
  have lz: "length (zenith_vecs g lats lons hts) = length lats"
    by (simp add: zenith_vecs_def)
  have "integrate_rays g delay lats lons hts (zenith_vecs g lats lons hts)
      = Inr (map (\<lambda>i. ray_delay g q (lla2ecef g (lats ! i) (lons ! i) (hts ! i))
               (zenith_vecs g lats lons hts ! i)) [0..<length lats])"
    using delay lz pos by (rule integrate_rays_pointwise)
  also have "map (\<lambda>i. ray_delay g q (lla2ecef g (lats ! i) (lons ! i) (hts ! i))
               (zenith_vecs g lats lons hts ! i)) [0..<length lats]
      = map (\<lambda>i. zenith_ray_delay g q (lats ! i, lons ! i, hts ! i)) [0..<length lats]"
    by (rule map_cong) (simp_all add: zenith_vecs_def zenith_ray_delay_def)
  finally show ?thesis
    by (simp add: common_delay_def apply_correction_def len)
qed

lemma columns_nth:
  "i < length llas \<Longrightarrow>
   (map fst llas ! i, map (\<lambda>p. fst (snd p)) llas ! i, map (\<lambda>p. snd (snd p)) llas ! i) = llas ! i"
  by simp

lemma delay_from_grid_serial_zenith:
  assumes hydro: "\<And>ps. wm_hydrostatic_delay w ps = Inr (map qh ps)"
    and wet: "\<And>ps. wm_wet_delay w ps = Inr (map qw ps)"
    and ne: "llas \<noteq> []"
  shows "delay_from_grid g cpus w llas Zenith False True
     = Inr (map (zenith_ray_delay g qh) llas, map (zenith_ray_delay g qw) llas)"
proof -
  let ?lats = "map fst llas" and ?lons = "map (\<lambda>p. fst (snd p)) llas" and ?hts = "map (\<lambda>p. snd (snd p)) llas"
  have pos: "0 < length ?lats" using ne by simp
  have cols: "map (\<lambda>i. zenith_ray_delay g q (?lats ! i, ?lons ! i, ?hts ! i)) [0..<length llas]
      = map (zenith_ray_delay g q) llas" for q
    by (rule nth_equalityI) simp_all
  have h: "hydrostatic_delay g w ?lats ?lons ?hts Zenith True = Inr (map (zenith_ray_delay g qh) llas)"
    unfolding hydrostatic_delay_def
    using common_delay_zenith [of "wm_hydrostatic_delay w" qh ?lons ?lats ?hts g, OF hydro _ _ pos]
    by (simp add: cols)
  have v: "wet_delay g w ?lats ?lons ?hts Zenith True = Inr (map (zenith_ray_delay g qw) llas)"
    unfolding wet_delay_def
    using common_delay_zenith [of "wm_wet_delay w" qw ?lons ?lats ?hts g, OF wet _ _ pos]
    by (simp add: cols)
  show ?thesis
    unfolding delay_from_grid_def Let_def by (simp add: h v prepare_los_def)
qed

lemma vadd_smul_smul: "vadd (smul a v) (smul b v) = smul (a + b) v"
  by (cases v) (simp add: vadd_def smul_def algebra_simps)

lemma sphere_vertical:
  assumes "0 \<le> R + h" and "0 \<le> t"
  shows "height_of (sphere_geo R zr)
           (vadd (lla2ecef (sphere_geo R zr) lat lon h) (smul t (up_vec lat lon))) = h + t"
  using assms by (simp add: height_of_def sphere_geo_def vadd_smul_smul norm3_smul norm3_up_vec)

lemma sphere_roundtrip:
  assumes "0 \<le> R + h"
  shows "height_of (sphere_geo R zr) (lla2ecef (sphere_geo R zr) lat lon h) = h"
  using assms by (simp add: height_of_def sphere_geo_def norm3_smul norm3_up_vec)

lemma integrate_loop_length:
  "integrate_loop wet indices steps tpl is delays = Inr r \<Longrightarrow> length r = length delays"
  by (induction "is" arbitrary: delays) (auto simp: Let_def split: sum.splits)

lemma integrate_rays_length:
  "integrate_rays g delay lats lons hts lv = Inr r \<Longrightarrow> length r = length lats"
  unfolding integrate_rays_def sample_rays_def Let_def
  by (auto split: sum.splits dest: integrate_loop_length)

lemma common_delay_zenith_length:
  "common_delay g delay lats lons hts Zenith True = Inr r \<Longrightarrow> length r = length lats"
  unfolding common_delay_def
  by (auto simp: apply_correction_def split: sum.splits if_splits dest: integrate_rays_length)

lemma common_delay_projection:
  assumes "length incs = length lats"
    and "\<forall>j < length incs. cosd (incs ! j) \<noteq> 0"
  shows "common_delay g delay lats lons hts (Scalars incs) False
     = (case common_delay g delay lats lons hts Zenith True of
          Inl e \<Rightarrow> Inl e
        | Inr zs \<Rightarrow> Inr (map (\<lambda>i. zs ! i * (1 / cosd (incs ! i))) [0..<length lats]))"
proof (cases "common_delay g delay lats lons hts Zenith True")
  case (Inl e)
  then show ?thesis
    unfolding common_delay_def by (auto simp: apply_correction_def split: sum.splits if_splits)
next
  case (Inr zs)
  then have len: "length zs = length lats" by (rule common_delay_zenith_length)
  from Inr have ir: "integrate_rays g delay lats lons hts (zenith_vecs g lats lons hts) = Inr zs"
    and eq: "length lons = length lats \<and> length hts = length lats"
    unfolding common_delay_def by (auto simp: apply_correction_def split: sum.splits if_splits)
  have "map (\<lambda>i. zs ! i * map (\<lambda>x. 1 / cosd x) incs ! i) [0..<length zs]
      = map (\<lambda>i. zs ! i * (1 / cosd (incs ! i))) [0..<length lats]"
    unfolding len by (rule map_cong) (simp_all add: assms(1))
  then show ?thesis
    unfolding Inr by (simp add: common_delay_def ir eq apply_correction_def len assms(1))
qed

lemma cosd_60: "cosd 60 = 1 / 2"
proof -
  have "(60::real) * pi / 180 = pi / 3" by simp
  then show ?thesis unfolding cosd_def by (simp add: cos_60)
qed

lemma cosd_half_gt: "1 / 2 < cosd (1 / 2)"
proof -
  have "cos (pi / 3) < cos (pi / 360)"
    by (rule cos_monotone_0_pi) (simp_all add: pi_gt_zero)
  then show ?thesis by (simp add: cosd_def cos_60)
qed

lemma zenith_30: 
  "common_delay (sphere_geo 6371000 15000) (\<lambda>ps. Inr (map (\<lambda>_. 1000000) ps))
     [0] [0] [14970] Zenith True = Inr [30]"
proof -
  let ?g = "sphere_geo 6371000 15000"
  let ?d = "\<lambda>ps :: vec3 list. (Inr (map (\<lambda>_. 1000000) ps) :: error + real list)"
  have z: "zref ?g = 15000" by (simp add: sphere_geo_def)
  have L: "0 < zref ?g - (14970::real)" by (simp add: z)
  have b: "\<forall>t. 0 \<le> t \<and> t \<le> zref ?g - 14970 \<longrightarrow>
      height_of ?g (vadd (lla2ecef ?g 0 0 14970) (smul t (up_vec 0 0))) \<le> zref ?g"
    by (simp add: sphere_vertical z)
  have "common_delay ?g ?d [0] [0] [14970] Zenith True
      = Inr (map (\<lambda>i. zenith_ray_delay ?g (\<lambda>_. 1000000) ([0] ! i, [0] ! i, [14970] ! i)) [0..<length [0::real]])"
    by (rule common_delay_zenith) simp_all
  also have "\<dots> = Inr [ray_delay ?g (\<lambda>_. 1000000) (lla2ecef ?g 0 0 14970) (smul (zref ?g - 14970) (up_vec 0 0))]"
    by (simp add: zenith_ray_delay_def)
  also have "\<dots> = Inr [30]"
    unfolding ray_delay_zenith_const [OF L b] by (simp add: z STEP_def)
  finally show ?thesis .
qed

lemma shape_message_text:
  "shape_message a b c = ''lat, lon, and ht should have the same shape, but instead lat had shape {lats.shape}, lon had shape {lons.shape}, and ht had shape {hts.shape}''"
  by (simp add: shape_message_def)

lemma mismatch_rejected_before_queries:
  assumes "\<not> (shape lats = shape lons \<and> shape lons = shape hts)"
  shows "delay_from_files g cpus los_to_lv w lats lons hts parallel None raytrace
     = Inl (ValueError (shape_message (shape lats) (shape lons) (shape hts)))"
  using assms by (simp add: delay_from_files_def)

lemma build_jobs_ok:
  "\<forall>i \<in> set is. Suc i < length hs \<Longrightarrow>
   build_jobs ty hs is = Inr (map (\<lambda>i. (ty, hs ! i, hs ! Suc i)) is)"
  by (induction "is") (simp_all add: array_get_def)

lemma build_jobs_index_error:
  "\<exists>i \<in> set is. length hs \<le> Suc i \<Longrightarrow> build_jobs ty hs is = Inl IndexError"
proof (induction "is")
  case Nil
  then show ?case by simp
next
  case (Cons a rest)
  show ?case
  proof (cases "length hs \<le> Suc a")
    case True
    then show ?thesis by (simp add: array_get_def)
  next
    case False
    with Cons.prems have "\<exists>i \<in> set rest. length hs \<le> Suc i" by auto
    then have "build_jobs ty hs rest = Inl IndexError" by (rule Cons.IH)
    then show ?thesis using False by (simp add: array_get_def)
  qed
qed

lemma dispatch_jobs_odd:
  assumes "odd cpu_count"
  shows "dispatch_jobs cpu_count n = Inl IndexError"
proof -
  define k where "k = cpu_count div 2"
  have c: "cpu_count = 2 * k + 1" using assms unfolding k_def by (simp add: odd_two_times_div_two_succ)
  have w: "cpu_count - k = Suc k" using c by simp
  define hs where "hs = map (\<lambda>x. nat \<lfloor>x\<rfloor>) (linspace 0 (real n) (k + 1))"
  have lh: "length hs = Suc k" by (simp add: hs_def linspace_length)
  have "\<exists>i \<in> set [0..<Suc k]. length hs \<le> Suc i" unfolding lh by (rule bexI [of _ k]) simp_all
  then have wj: "build_jobs ''wet'' hs [0..<Suc k] = Inl IndexError"
    by (rule build_jobs_index_error)
  have "\<forall>i \<in> set [0..<k]. Suc i < length hs" unfolding lh by simp
  then have hj: "build_jobs ''hydro'' hs [0..<k] = Inr (map (\<lambda>i. (''hydro'', hs ! i, hs ! Suc i)) [0..<k])"
    by (rule build_jobs_ok)
  show ?thesis
    unfolding dispatch_jobs_def Let_def k_def [symmetric] w hs_def [symmetric] wj hj
    by simp
qed

lemma length_parmap_run: "length (parmap_run f q live answers) = length answers"
  by (induction f q live answers rule: parmap_run.induct) (simp_all split: sum.splits)

lemma parmap_run_keeps_none:
  assumes "answers ! i = None"
    and "\<forall>x. (i, x) \<in> set q \<longrightarrow> (\<exists>e. f x = Inl e)"
  shows "parmap_run f q live answers ! i = None"
  using assms
proof (induction f q live answers rule: parmap_run.induct)
  case (1 f live answers)
  then show ?case by simp
next
  case (2 f k elem q live answers)
  show ?case
  proof (cases "live = 0")
    case True
    then show ?thesis using "2.prems" by simp
  next
    case False
    show ?thesis
    proof (cases "f elem")
      case (Inl e)
      have "parmap_run f q (live - 1) answers ! i = None"
        using "2.IH"(1) [OF False Inl] "2.prems" by simp
      then show ?thesis using False Inl by simp
    next
      case (Inr v)
      have ki: "k \<noteq> i" using "2.prems"(2) Inr by auto
      have "parmap_run f q live (answers[k := Some v]) ! i = None"
        using "2.IH"(2) [OF False Inr] "2.prems" ki by simp
      then show ?thesis using False Inr by simp
    qed
  qed
qed

lemma parmap_failed_job_none:
  assumes i: "i < length jobs" and e: "f (jobs ! i) = Inl e"
  shows "length (parmap cpus f jobs) = length jobs" and "parmap cpus f jobs ! i = None"
proof -
  show "length (parmap cpus f jobs) = length jobs"
    by (simp add: parmap_def length_parmap_run)
  have "\<forall>x. (i, x) \<in> set (zip [0..<length jobs] jobs) \<longrightarrow> (\<exists>e. f x = Inl e)"
    using e by (auto simp: set_zip)
  moreover have "replicate (length jobs) None ! i = None" using i by simp
  ultimately show "parmap cpus f jobs ! i = None"
    unfolding parmap_def by (intro parmap_run_keeps_none)
qed

lemma concatenate_answers_error:
  "concatenate_answers rs = Inl e \<Longrightarrow> \<exists>m. e = ValueError m"
  by (auto simp: concatenate_answers_def split: if_splits)

lemma concatenate_answers_none:
  "None \<in> set rs \<Longrightarrow> \<exists>m. concatenate_answers rs = Inl (ValueError m)"
  by (auto simp: concatenate_answers_def)

lemma failed_worker_no_result:
  assumes los: "prepare_los los0 raytrace = Inr los"
    and jobs: "dispatch_jobs cpu_count (length llas) = Inr jobs"
    and j: "j \<in> set jobs"
    and fail: "go g w (map fst llas) (map (\<lambda>p. fst (snd p)) llas) (map (\<lambda>p. snd (snd p)) llas)
                 los raytrace j = Inl e"
  shows "\<exists>m. delay_from_grid g cpu_count w llas los0 True raytrace = Inl (ValueError m)"
proof -
  define f where "f = go g w (map fst llas) (map (\<lambda>p. fst (snd p)) llas) (map (\<lambda>p. snd (snd p)) llas)
                 los raytrace"
  define result where "result = parmap cpu_count f jobs"
  define hp where "hp = cpu_count div 2"
  obtain i where i: "i < length jobs" and ji: "jobs ! i = j"
    using j by (auto simp: in_set_conv_nth)
  have fi: "f (jobs ! i) = Inl e" using fail by (simp add: f_def ji)
  have len: "length result = length jobs" and none: "result ! i = None"
    unfolding result_def
    using parmap_failed_job_none [of i jobs f e cpu_count, OF i fi] by simp_all
  have unfold: "delay_from_grid g cpu_count w llas los0 True raytrace =
      (case (case concatenate_answers (take hp result) of
               Inl e \<Rightarrow> Inl e
             | Inr hydro \<Rightarrow>
                 (case concatenate_answers (drop hp result) of
                    Inl e \<Rightarrow> Inl e
                  | Inr wet \<Rightarrow> Inr (hydro, wet))) of
         Inl e \<Rightarrow> Inl e
       | Inr (hydro, wet) \<Rightarrow>
           if length hydro = length wet then Inr (hydro, wet)
           else Inl (ValueError ''all input arrays must have the same shape''))"
    unfolding delay_from_grid_def Let_def los jobs result_def hp_def f_def
    by simp
  show ?thesis
  proof (cases "i < hp")
    case True
    then have "result ! i \<in> set (take hp result)"
      using i len by (metis in_set_conv_nth length_take min_less_iff_conj nth_take)
    then have "None \<in> set (take hp result)" using none by simp
    from concatenate_answers_none [OF this] show ?thesis unfolding unfold by auto
  next
    case False
    then have "result ! i = drop hp result ! (i - hp)" "i - hp < length (drop hp result)"
      using i len by simp_all
    then have "None \<in> set (drop hp result)" using none by (metis nth_mem)
    from concatenate_answers_none [OF this]
    obtain m where w: "concatenate_answers (drop hp result) = Inl (ValueError m)" ..
    show ?thesis
    proof (cases "concatenate_answers (take hp result)")
      case (Inl e')
      with concatenate_answers_error [OF Inl] show ?thesis unfolding unfold by auto
    next
      case (Inr hydro)
      then show ?thesis unfolding unfold by (simp add: w)
    qed
  qed
qed

lemma integrate_rays_model_error:
  assumes delay: "\<And>ps. delay ps = Inl e"
    and lv: "length lv = length lats"
    and pos: "0 < length lats"
  shows "integrate_rays g delay lats lons hts lv = Inl e"
proof -
  define sp where "sp = map (\<lambda>i. lla2ecef g (lats ! i) (lons ! i) (hts ! i)) [0..<length lats]"
  define ls where "ls = map norm3 lv"
  define st where "st = map (\<lambda>l. nat \<lceil>l / STEP\<rceil>) ls"
  define dv where "dv = map (\<lambda>i. sdiv (lv ! i) (ls ! i)) [0..<length lv]"
  have lenst: "length st = length lats" by (simp add: st_def ls_def lv)
  have loop: "ray_loop g sp ls st dv [0..<length st]
      = Inr (map (\<lambda>i. ray_body g (sp ! i) (ls ! i) (st ! i) (dv ! i)) [0..<length st])"
    by (rule ray_loop_map) (simp add: lenst sp_def)
  have ne: "[0..<length st] \<noteq> []" using pos lenst by simp
  show ?thesis
    unfolding integrate_rays_def sample_rays_def Let_def
      sp_def [symmetric] ls_def [symmetric] st_def [symmetric] dv_def [symmetric] loop
    using ne by (simp add: concatenate_def delay)
qed

lemma common_delay_model_error:
  assumes "\<And>ps. delay ps = Inl e"
    and "length lons = length lats" "length hts = length lats" "0 < length lats"
  shows "common_delay g delay lats lons hts Zenith True = Inl e"
proof -
  have "integrate_rays g delay lats lons hts (zenith_vecs g lats lons hts) = Inl e"
    using assms(1) _ assms(4) by (rule integrate_rays_model_error) (simp add: zenith_vecs_def)
  then show ?thesis by (simp add: common_delay_def assms)
qed

lemma common_delay_empty:
  "common_delay g delay [] [] [] Zenith True
     = Inl (ValueError ''need at least one array to concatenate'')"
  by (simp add: common_delay_def integrate_rays_def sample_rays_def zenith_vecs_def concatenate_def)

lemma dispatch_jobs_2_1: "dispatch_jobs 2 1 = Inr [(''hydro'', 0, 1), (''wet'', 0, 1)]"
  by (simp add: dispatch_jobs_def linspace_def array_get_def upt_rec)

lemma upt4: "[0..<4] = [0, 1, 2, 3]" by (simp add: upt_rec)
lemma upt2: "[0..<2] = [0, 1]" by (simp add: upt_rec)

lemma dispatch_jobs_4_1:
  "dispatch_jobs 4 1 = Inr [(''hydro'', 0, 0), (''hydro'', 0, 1), (''wet'', 0, 0), (''wet'', 0, 1)]"
  by (simp add: dispatch_jobs_def linspace_def array_get_def upt3 upt2)

lemma zenith_const_30:
  "common_delay demo_geo (\<lambda>ps. Inr (map (\<lambda>_. c) ps)) [0] [0] [14970] Zenith True
     = Inr [c * 30 / 1000000]"
proof -
  let ?g = "demo_geo"
  have z: "zref ?g = 15000" by (simp add: demo_geo_def sphere_geo_def)
  have L: "0 < zref ?g - (14970::real)" by (simp add: z)
  have b: "\<forall>t. 0 \<le> t \<and> t \<le> zref ?g - 14970 \<longrightarrow>
      height_of ?g (vadd (lla2ecef ?g 0 0 14970) (smul t (up_vec 0 0))) \<le> zref ?g"
    unfolding demo_geo_def by (simp add: sphere_vertical)
  have "common_delay ?g (\<lambda>ps. Inr (map (\<lambda>_. c) ps)) [0] [0] [14970] Zenith True
      = Inr (map (\<lambda>i. zenith_ray_delay ?g (\<lambda>_. c) ([0] ! i, [0] ! i, [14970] ! i)) [0..<length [0::real]])"
    by (rule common_delay_zenith) simp_all
  also have "\<dots> = Inr [ray_delay ?g (\<lambda>_. c) (lla2ecef ?g 0 0 14970) (smul (zref ?g - 14970) (up_vec 0 0))]"
    by (simp add: zenith_ray_delay_def)
  also have "\<dots> = Inr [c * 30 / 1000000]"
    unfolding ray_delay_zenith_const [OF L b] by (simp add: z STEP_def)
  finally show ?thesis .
qed

lemma slice_single: "slice [x] 0 (Suc 0) = [x]" "slice [x] 0 0 = []"
  by (simp_all add: slice_def)

lemma go_const_full:
  "go demo_geo (const_weather a b) [0] [0] [14970] Zenith True (''hydro'', 0, Suc 0) = Inr [a * 30 / 1000000]"
  "go demo_geo (const_weather a b) [0] [0] [14970] Zenith True (''wet'', 0, Suc 0) = Inr [b * 30 / 1000000]"
  by (simp_all add: go_def slice_single hydrostatic_delay_def wet_delay_def const_weather_def
      zenith_const_30)

lemma go_empty_slice:
  "go g w [0] [0] [14970] Zenith True (''hydro'', 0, 0)
     = Inl (ValueError ''need at least one array to concatenate'')"
  "go g w [0] [0] [14970] Zenith True (''wet'', 0, 0)
     = Inl (ValueError ''need at least one array to concatenate'')"
  by (simp_all add: go_def slice_single hydrostatic_delay_def wet_delay_def common_delay_empty)

lemma go_failing:
  "go demo_geo (failing_weather msg b) [0] [0] [14970] Zenith True (''hydro'', 0, Suc 0)
     = Inl (ModelError msg)"
  "go demo_geo (failing_weather msg b) [0] [0] [14970] Zenith True (''wet'', 0, Suc 0)
     = Inr [b * 30 / 1000000]"
proof -
  have "common_delay demo_geo (\<lambda>ps. Inl (ModelError msg)) [0] [0] [14970] Zenith True
      = Inl (ModelError msg)"
    by (rule common_delay_model_error) simp_all
  then show "go demo_geo (failing_weather msg b) [0] [0] [14970] Zenith True (''hydro'', 0, Suc 0)
     = Inl (ModelError msg)"
    by (simp add: go_def slice_single hydrostatic_delay_def failing_weather_def)
  show "go demo_geo (failing_weather msg b) [0] [0] [14970] Zenith True (''wet'', 0, Suc 0)
     = Inr [b * 30 / 1000000]"
    by (simp add: go_def slice_single wet_delay_def failing_weather_def zenith_const_30)
qed

lemma serial_const:
  "delay_from_grid demo_geo cpus (const_weather a b) [(0, 0, 14970)] Zenith False True
     = Inr ([a * 30 / 1000000], [b * 30 / 1000000])"
  by (simp add: delay_from_grid_def prepare_los_def hydrostatic_delay_def wet_delay_def
      const_weather_def zenith_const_30)

lemma serial_failing:
  "delay_from_grid demo_geo cpus (failing_weather msg b) [(0, 0, 14970)] Zenith False True
     = Inl (ModelError msg)"
  using go_failing(1) [of msg b]
  by (simp add: delay_from_grid_def prepare_los_def go_def slice_single Let_def)

lemma parallel_failing_2:
  "delay_from_grid demo_geo 2 (failing_weather msg b) [(0, 0, 14970)] Zenith True True
     = Inl (ValueError ''zero-dimensional arrays cannot be concatenated'')"
  by (simp add: delay_from_grid_def prepare_los_def dispatch_jobs_2_1 [simplified] parmap_def upt2 go_failing
      concatenate_answers_def)

lemma parallel_const_4:
  "delay_from_grid demo_geo 4 (const_weather a b) [(0, 0, 14970)] Zenith True True
     = Inl (ValueError ''zero-dimensional arrays cannot be concatenated'')"
  by (simp add: delay_from_grid_def prepare_los_def dispatch_jobs_4_1 [simplified] parmap_def upt4
      go_const_full go_empty_slice concatenate_answers_def)

lemma parallel_odd:
  "odd cpu_count \<Longrightarrow> delay_from_grid g cpu_count w llas Zenith True raytrace = Inl IndexError"
  by (simp add: delay_from_grid_def prepare_los_def dispatch_jobs_odd)

subsection \<open>Every schedule of the pool gives the answers of \<open>parmap\<close>\<close>

lemma parmap_run_update:
  "i \<notin> fst ` set q \<Longrightarrow> parmap_run f q live (a[i := u]) = (parmap_run f q live a)[i := u]"
proof (induction f q live a rule: parmap_run.induct)
  case (1 f live answers)
  then show ?case by simp
next
  case (2 f k elem q live answers)
  then have ki: "k \<noteq> i" and iq: "i \<notin> fst ` set q" by auto
  show ?case
  proof (cases "live = 0")
    case True
    then show ?thesis by simp
  next
    case False
    show ?thesis
    proof (cases "f elem")
      case (Inl e)
      then show ?thesis using False "2.IH"(1) [OF False Inl iq] by simp
    next
      case (Inr v)
      have "parmap_run f q live ((answers[i := u])[k := Some v])
          = parmap_run f q live ((answers[k := Some v])[i := u])"
        using ki by (simp add: list_update_swap)
      then show ?thesis using False Inr "2.IH"(2) [OF False Inr iq] by simp
    qed
  qed
qed

lemma thread_write_update:
  "i \<notin> set (thread_ids th) \<Longrightarrow> thread_write f th (a[i := u]) = (thread_write f th a)[i := u]"
  by (cases th) (auto simp: list_update_swap split: sum.splits)

lemma pending_update:
  "i \<notin> set (running_ids ths) \<Longrightarrow> pending f ths (a[i := u]) = (pending f ths a)[i := u]"
  by (induction ths) (simp_all add: pending_def running_ids_def thread_write_update)

text \<open>Replacing one thread: what it does to the three summaries.\<close>

lemma running_ids_replace:
  "t < length ths \<Longrightarrow>
   running_ids (ths[t := th]) = running_ids (take t ths) @ thread_ids th @ running_ids (drop (Suc t) ths)"
  by (simp add: running_ids_def upd_conv_take_nth_drop)

lemma running_ids_split:
  "t < length ths \<Longrightarrow>
   running_ids ths = running_ids (take t ths) @ thread_ids (ths ! t) @ running_ids (drop (Suc t) ths)"
  using running_ids_replace [of t ths "ths ! t"] by simp

lemma live_count_replace:
  "t < length ths \<Longrightarrow>
   live_count f (ths[t := th]) + (if will_return f (ths ! t) then 1 else 0)
     = live_count f ths + (if will_return f th then 1 else 0)"
proof -
  assume t: "t < length ths"
  have "live_count f ths = live_count f (take t ths @ ths ! t # drop (Suc t) ths)"
    using id_take_nth_drop [OF t] by simp
  also have "\<dots> = live_count f (take t ths) + (if will_return f (ths ! t) then 1 else 0)
      + live_count f (drop (Suc t) ths)"
    by (simp add: live_count_def)
  finally have a: "live_count f ths = live_count f (take t ths) + (if will_return f (ths ! t) then 1 else 0)
      + live_count f (drop (Suc t) ths)" .
  have "live_count f (ths[t := th]) = live_count f (take t ths) + (if will_return f th then 1 else 0)
      + live_count f (drop (Suc t) ths)"
    using t by (simp add: live_count_def upd_conv_take_nth_drop)
  with a show ?thesis by simp
qed

lemma pending_replace:
  assumes "t < length ths"
  shows "pending f (ths[t := th]) a
     = pending f (take t ths) (thread_write f th (pending f (drop (Suc t) ths) a))"
  using assms by (simp add: pending_def upd_conv_take_nth_drop)

lemma pending_split:
  assumes "t < length ths"
  shows "pending f ths a
     = pending f (take t ths) (thread_write f (ths ! t) (pending f (drop (Suc t) ths) a))"
  using pending_replace [OF assms, of f "ths ! t" a] by simp

lemma parmap_run_no_thread: "parmap_run f q 0 a = a"
  by (cases q) auto

lemma pool_step_preserves:
  assumes "pool_step f s s'" and "pool_inv s"
  shows "pool_inv s' \<and> outcome f s' = outcome f s"
  using assms
proof (induction rule: pool_step.induct)
  case (take_job t ths i x q answers)
  let ?P = "take t ths" and ?S = "drop (Suc t) ths"
  have ids: "running_ids ths = running_ids ?P @ running_ids ?S"
    using running_ids_split [OF take_job(1)] take_job(2) by simp
  have ids': "running_ids (ths[t := Running i x]) = running_ids ?P @ [i] @ running_ids ?S"
    using running_ids_replace [OF take_job(1)] by simp
  from take_job(3) have iq: "i \<notin> fst ` set q" and ir: "i \<notin> set (running_ids ths)"
    and d: "distinct (map fst q @ running_ids ths)"
    by auto
  have inv: "pool_inv (q, answers, ths[t := Running i x])"
    using iq ir d unfolding pool_inv.simps ids ids' by auto
  have pend: "pending f ths A = pending f ?P (pending f ?S A)" for A
    using pending_split [OF take_job(1), of f A] take_job(2) by simp
  have pend': "pending f (ths[t := Running i x]) A
      = pending f ?P (thread_write f (Running i x) (pending f ?S A))" for A
    using take_job(1) by (rule pending_replace)
  have lc: "live_count f (ths[t := Running i x]) + 1
      = live_count f ths + (if will_return f (Running i x) then 1 else 0)"
    using live_count_replace [OF take_job(1), of f "Running i x"] take_job(2) by simp
  have out: "outcome f (q, answers, ths[t := Running i x]) = outcome f ((i, x) # q, answers, ths)"
  proof (cases "f x")
    case (Inl e)
    then have l: "live_count f ths = Suc (live_count f (ths[t := Running i x]))"
      using lc by simp
    show ?thesis
      unfolding outcome.simps l by (simp add: Inl pend pend')
  next
    case (Inr v)
    then have l: "live_count f (ths[t := Running i x]) = live_count f ths"
      using lc by simp
    have "Idle \<in> set ths" using take_job(1,2) by (metis nth_mem)
    moreover have "will_return f Idle" by simp
    ultimately have "filter (will_return f) ths \<noteq> []" unfolding filter_empty_conv by blast
    then have pos: "live_count f ths \<noteq> 0" by (simp add: live_count_def)
    have irS: "i \<notin> set (running_ids ?S)" using ir unfolding ids by simp
    show ?thesis
      unfolding outcome.simps l
      using pos by (simp add: Inr parmap_run_update [OF iq] pend pend' pending_update [OF irS])
  qed
  from inv out show ?case by simp
next
  case (queue_empty t ths answers)
  have ids: "running_ids (ths[t := Finished]) = running_ids ths"
    using running_ids_replace [OF queue_empty(1), of Finished] running_ids_split [OF queue_empty(1)]
      queue_empty(2) by simp
  have pend: "pending f (ths[t := Finished]) A = pending f ths A" for A
    using pending_replace [OF queue_empty(1), of f Finished A] pending_split [OF queue_empty(1), of f A]
      queue_empty(2) by simp
  show ?case using queue_empty(3) by (simp add: ids pend)
next
  case (store_answer t ths i x v q answers)
  let ?P = "take t ths" and ?S = "drop (Suc t) ths"
  have ids: "running_ids ths = running_ids ?P @ [i] @ running_ids ?S"
    using running_ids_split [OF store_answer(1)] store_answer(2) by simp
  have ids': "running_ids (ths[t := Idle]) = running_ids ?P @ running_ids ?S"
    using running_ids_replace [OF store_answer(1), of Idle] by simp
  have "distinct (map fst q @ running_ids ths)" using store_answer(4) by simp
  then have d: "distinct (map fst q @ running_ids ?P @ [i] @ running_ids ?S)"
    unfolding ids .
  then have iq: "i \<notin> fst ` set q" and iS: "i \<notin> set (running_ids ?S)" by auto
  have inv: "pool_inv (q, answers[i := Some v], ths[t := Idle])"
    using d unfolding pool_inv.simps ids' by auto
  have l: "live_count f (ths[t := Idle]) = live_count f ths"
    using live_count_replace [OF store_answer(1), of f Idle] store_answer(2,3) by simp
  have pend: "pending f ths A = pending f ?P ((pending f ?S A)[i := Some v])" for A
    using pending_split [OF store_answer(1), of f A] store_answer(2,3) by simp
  have pend': "pending f (ths[t := Idle]) A = pending f ?P (pending f ?S A)" for A
    using pending_replace [OF store_answer(1), of f Idle A] by simp
  have out: "outcome f (q, answers[i := Some v], ths[t := Idle]) = outcome f (q, answers, ths)"
    unfolding outcome.simps l
    by (simp add: parmap_run_update [OF iq] pend pend' pending_update [OF iS])
  from inv out show ?case by simp
next
  case (job_raises t ths i x e q answers)
  let ?P = "take t ths" and ?S = "drop (Suc t) ths"
  have ids: "running_ids ths = running_ids ?P @ [i] @ running_ids ?S"
    using running_ids_split [OF job_raises(1)] job_raises(2) by simp
  have ids': "running_ids (ths[t := Finished]) = running_ids ?P @ running_ids ?S"
    using running_ids_replace [OF job_raises(1), of Finished] by simp
  have "distinct (map fst q @ running_ids ths)" using job_raises(4) by simp
  then have "distinct (map fst q @ running_ids ?P @ [i] @ running_ids ?S)"
    unfolding ids .
  then have inv: "pool_inv (q, answers, ths[t := Finished])"
    unfolding pool_inv.simps ids' by auto
  have l: "live_count f (ths[t := Finished]) = live_count f ths"
    using live_count_replace [OF job_raises(1), of f Finished] job_raises(2,3) by simp
  have pend: "pending f (ths[t := Finished]) A = pending f ths A" for A
    using pending_replace [OF job_raises(1), of f Finished A] pending_split [OF job_raises(1), of f A]
      job_raises(2,3) by simp
  from inv show ?case by (simp add: l pend)
qed

lemma pool_steps_preserve:
  assumes "(pool_step f)\<^sup>*\<^sup>* s s'" and "pool_inv s"
  shows "pool_inv s' \<and> outcome f s' = outcome f s"
  using assms
proof (induction rule: rtranclp_induct)
  case base
  then show ?case by simp
next
  case (step y z)
  then have "pool_inv y" and "outcome f y = outcome f s" by simp_all
  with pool_step_preserves [OF step(2)] show ?case by simp
qed

lemma outcome_finished:
  assumes "\<forall>th \<in> set ths. th = Finished"
  shows "outcome f (q, answers, ths) = answers"
proof -
  have "filter (will_return f) ths = []" using assms by (auto simp: filter_empty_conv)
  then have l: "live_count f ths = 0" by (simp add: live_count_def)
  have p: "pending f ths a = a" for a
    using assms unfolding pending_def by (induction ths) auto
  show ?thesis by (simp add: l p parmap_run_no_thread)
qed

lemma outcome_initial:
  "outcome f (zip [0..<length jobs] jobs, replicate (length jobs) None, replicate cpus Idle)
     = parmap cpus f jobs"
proof -
  have l: "live_count f (replicate cpus Idle) = cpus" by (simp add: live_count_def)
  have p: "pending f (replicate cpus Idle) a = a" for a
    unfolding pending_def by (induction cpus) auto
  show ?thesis by (simp add: l p parmap_def)
qed

lemma pool_inv_initial:
  "pool_inv (zip [0..<length jobs] jobs, replicate (length jobs) None, replicate cpus Idle)"
proof -
  have "running_ids (replicate cpus (Idle :: 'a thread)) = []"
    by (induction cpus) (simp_all add: running_ids_def)
  then show ?thesis by simp
qed

lemma pool_schedule_independent:
  assumes "(pool_step f)\<^sup>*\<^sup>*
      (zip [0..<length jobs] jobs, replicate (length jobs) None, replicate cpus Idle)
      (q, answers, ths)"
    and "\<forall>th \<in> set ths. th = Finished"
  shows "answers = parmap cpus f jobs"
  using pool_steps_preserve [OF assms(1) pool_inv_initial] outcome_finished [OF assms(2), of f q answers]
    outcome_initial [of f jobs cpus]
  by simp

lemma weight_replace:
  "t < length ths \<Longrightarrow>
   sum_list (map thread_weight (ths[t := th])) + thread_weight (ths ! t)
     = sum_list (map thread_weight ths) + thread_weight th"
proof (induction ths arbitrary: t)
  case Nil
  then show ?case by simp
next
  case (Cons a ths)
  show ?case
  proof (cases t)
    case 0
    then show ?thesis by simp
  next
    case (Suc t')
    with Cons.prems have "t' < length ths" by simp
    from Cons.IH [OF this] Suc show ?thesis by simp
  qed
qed

lemma pool_step_measure:
  "pool_step f s s' \<Longrightarrow> pool_measure s' < pool_measure s"
proof (induction rule: pool_step.induct)
  case (take_job t ths i x q answers)
  then show ?case using weight_replace [of t ths "Running i x"] by simp
next
  case (queue_empty t ths answers)
  then show ?case using weight_replace [of t ths Finished] by simp
next
  case (store_answer t ths i x v q answers)
  then show ?case using weight_replace [of t ths Idle] by simp
next
  case (job_raises t ths i x e q answers)
  then show ?case using weight_replace [of t ths Finished] by simp
qed

lemma pool_progress:
  assumes "\<not> pool_final (q, answers, ths)"
  shows "\<exists>s'. pool_step f (q, answers, ths) s'"
proof -
  from assms obtain t where t: "t < length ths" and nf: "ths ! t \<noteq> Finished"
    by (auto simp: list_all_length)
  show ?thesis
  proof (cases "ths ! t")
    case Idle
    show ?thesis
    proof (cases q)
      case Nil
      have "pool_step f ([], answers, ths) ([], answers, ths[t := Finished])"
        using t Idle by (rule pool_step.queue_empty)
      then show ?thesis unfolding Nil by (rule exI)
    next
      case (Cons p q')
      obtain i x where p: "p = (i, x)" by (cases p)
      have "pool_step f ((i, x) # q', answers, ths) (q', answers, ths[t := Running i x])"
        using t Idle by (rule pool_step.take_job)
      then show ?thesis unfolding Cons p by (rule exI)
    qed
  next
    case (Running i x)
    show ?thesis
    proof (cases "f x")
      case (Inl e)
      have "pool_step f (q, answers, ths) (q, answers, ths[t := Finished])"
        using t Running Inl by (rule pool_step.job_raises)
      then show ?thesis by (rule exI)
    next
      case (Inr v)
      have "pool_step f (q, answers, ths) (q, answers[i := Some v], ths[t := Idle])"
        using t Running Inr by (rule pool_step.store_answer)
      then show ?thesis by (rule exI)
    qed
  next
    case Finished
    with nf show ?thesis by simp
  qed
qed

lemma pool_terminates:
  "\<exists>s'. (pool_step f)\<^sup>*\<^sup>* s s' \<and> pool_final s'"
proof (induction "pool_measure s" arbitrary: s rule: less_induct)
  case less
  show ?case
  proof (cases "pool_final s")
    case True
    then show ?thesis by blast
  next
    case False
    obtain q answers ths where s: "s = (q, answers, ths)" by (cases s)
    from False pool_progress [of q answers ths f] obtain s1 where st: "pool_step f s s1"
      unfolding s by blast
    from less [OF pool_step_measure [OF st]] obtain s' where
      r: "(pool_step f)\<^sup>*\<^sup>* s1 s'" and fin: "pool_final s'" by blast
    from st r have "(pool_step f)\<^sup>*\<^sup>* s s'" by (rule converse_rtranclp_into_rtranclp)
    with fin show ?thesis by blast
  qed
qed

lemma pool_runs_to_parmap:
  "\<exists>q ths. (pool_step f)\<^sup>*\<^sup>*
      (zip [0..<length jobs] jobs, replicate (length jobs) None, replicate cpus Idle)
      (q, parmap cpus f jobs, ths) \<and> pool_final (q, parmap cpus f jobs, ths)"
proof -
  let ?s0 = "(zip [0..<length jobs] jobs, replicate (length jobs) None, replicate cpus (Idle :: 'a thread))"
  from pool_terminates [of f ?s0] obtain s' where r: "(pool_step f)\<^sup>*\<^sup>* ?s0 s'" and fin: "pool_final s'"
    by blast
  obtain q answers ths where s': "s' = (q, answers, ths)" by (cases s')
  have "\<forall>th \<in> set ths. th = Finished" using fin unfolding s' by (simp add: list_all_iff)
  with r have "answers = parmap cpus f jobs"
    unfolding s' by (rule pool_schedule_independent)
  with r fin show ?thesis unfolding s' by blast
qed

subsection \<open>Even worker counts\<close>

text \<open>
  With \<open>2 * k\<close> workers, \<open>k \<ge> 1\<close>, both components get the same \<open>k\<close> slices, cut (with
  the exact boundaries of \<open>dispatch_jobs\<close>) at
  \<open>i * n div k\<close>: contiguous, of equal size up to one, and together the whole of \<open>[0, n)\<close>.
  When no slice is empty (\<open>k \<le> n\<close>) and the weather model answers every query position by
  position, the parallel Zenith call returns what the serial call returns.
\<close>

lemma hindices_nth:
  assumes "1 \<le> k" and "i \<le> k"
  shows "map (\<lambda>x. nat \<lfloor>x\<rfloor>) (linspace 0 (real n) (k + 1)) ! i = (i * n) div k"
proof -
  have "linspace 0 (real n) (k + 1) ! i = real i * (real n / real k)"
    using assms by (simp add: linspace_nth)
  also have "\<dots> = real (i * n) / real k" by simp
  finally have "\<lfloor>linspace 0 (real n) (k + 1) ! i\<rfloor> = int ((i * n) div k)"
    by (simp only: floor_divide_of_nat_eq)
  then show ?thesis using assms by (simp add: linspace_length)
qed

lemma length_hindices: "length (map (\<lambda>x. nat \<lfloor>x\<rfloor>) (linspace 0 (real n) (k + 1))) = Suc k"
  by (simp add: linspace_length)

lemma dispatch_jobs_even:
  assumes "1 \<le> k"
  shows "dispatch_jobs (2 * k) n
     = Inr (map (\<lambda>i. (''hydro'', (i * n) div k, (Suc i * n) div k)) [0..<k]
            @ map (\<lambda>i. (''wet'', (i * n) div k, (Suc i * n) div k)) [0..<k])"
proof -
  define hs where "hs = map (\<lambda>x. nat \<lfloor>x\<rfloor>) (linspace 0 (real n) (k + 1))"
  have lh: "length hs = Suc k" unfolding hs_def by (rule length_hindices)
  have nth: "hs ! i = (i * n) div k" if "i \<le> k" for i
    unfolding hs_def using assms that by (rule hindices_nth)
  have ok: "\<forall>i \<in> set [0..<k]. Suc i < length hs" by (simp add: lh)
  have jobs: "build_jobs ty hs [0..<k] = Inr (map (\<lambda>i. (ty, (i * n) div k, (Suc i * n) div k)) [0..<k])" for ty
  proof -
    have "map (\<lambda>i. (ty, hs ! i, hs ! Suc i)) [0..<k] = map (\<lambda>i. (ty, (i * n) div k, (Suc i * n) div k)) [0..<k]"
      by (rule map_cong) (simp_all add: nth)
    then show ?thesis using build_jobs_ok [OF ok, of ty] by simp
  qed
  have d: "2 * k div 2 = k" "2 * k - k = k" by simp_all
  show ?thesis
    unfolding dispatch_jobs_def Let_def d hs_def [symmetric] jobs by simp
qed

lemma boundaries_tile:
  assumes "1 \<le> k"
  shows "(0 * n) div k = 0" and "(k * n) div k = n"
    and "i \<le> j \<Longrightarrow> (i * n) div k \<le> (j * n) div k"
    and "n div k \<le> (Suc i * n) div k - (i * n) div k"
    and "(Suc i * n) div k - (i * n) div k \<le> n div k + 1"
proof -
  have kpos: "0 < k" using assms by simp
  show "(0 * n) div k = 0" by simp
  show "(k * n) div k = n" using kpos by simp
  show "i \<le> j \<Longrightarrow> (i * n) div k \<le> (j * n) div k"
    by (intro div_le_mono mult_le_mono1)
  have split: "Suc i * n = i * n + n" by simp
  have "((i * n) div k + n div k) * k \<le> i * n + n"
    using div_times_less_eq_dividend [of "i * n" k] div_times_less_eq_dividend [of n k]
    by (simp only: add_mult_distrib add_mono)
  then have lo: "(i * n) div k + n div k \<le> (i * n + n) div k"
    using kpos by (simp add: less_eq_div_iff_mult_less_eq)
  show "n div k \<le> (Suc i * n) div k - (i * n) div k"
    unfolding split using lo by simp
  have "(i * n + n) div k \<le> (i * n) div k + n div k + 1"
  proof -
    have e1: "i * n = (i * n) div k * k + (i * n) mod k" by simp
    have e2: "n = n div k * k + n mod k" by simp
    have m: "(i * n) mod k + n mod k < 2 * k"
      using mod_less_divisor [OF kpos, of "i * n"] mod_less_divisor [OF kpos, of n] by linarith
    have r: "((i * n) div k + n div k + 2) * k = (i * n) div k * k + n div k * k + 2 * k"
      by (simp add: algebra_simps)
    have "i * n + n < ((i * n) div k + n div k + 2) * k"
      unfolding r using e1 e2 m by linarith
    then have "(i * n + n) div k < (i * n) div k + n div k + 2"
      using kpos by (simp add: div_less_iff_less_mult)
    then show ?thesis by simp
  qed
  then show "(Suc i * n) div k - (i * n) div k \<le> n div k + 1"
    unfolding split by simp
qed

lemma concat_slices:
  assumes "\<And>i. i < k \<Longrightarrow> b i \<le> b (Suc i)"
  shows "concat (map (\<lambda>i. slice xs (b i) (b (Suc i))) [0..<k]) = slice xs (b 0) (b k)"
  using assms
proof (induction k)
  case 0
  then show ?case by (simp add: slice_def)
next
  case (Suc k)
  have mono: "b 0 \<le> b k"
    using Suc.prems by (induction k) (auto intro: order_trans simp: less_Suc_eq)
  have step: "b k \<le> b (Suc k)" using Suc.prems by simp
  have "slice xs (b 0) (b k) @ slice xs (b k) (b (Suc k)) = slice xs (b 0) (b (Suc k))"
  proof -
    have "take (b k - b 0) (drop (b 0) xs) @ take (b (Suc k) - b k) (drop (b k) xs)
        = take (b (Suc k) - b 0) (drop (b 0) xs)"
    proof -
      have e: "b (Suc k) - b 0 = (b k - b 0) + (b (Suc k) - b k)" using mono step by simp
      have d: "drop (b k - b 0) (drop (b 0) xs) = drop (b k) xs" using mono by simp
      show ?thesis unfolding e take_add d ..
    qed
    then show ?thesis by (simp add: slice_def)
  qed
  then show ?case using Suc by simp
qed

lemma parmap_run_all_ok:
  assumes "0 < live"
    and "\<forall>x \<in> set js. f x = Inr (r x)"
    and "m + length js \<le> length answers"
  shows "parmap_run f (zip [m..<m + length js] js) live answers
     = take m answers @ map (\<lambda>x. Some (r x)) js @ drop (m + length js) answers"
  using assms(2,3)
proof (induction js arbitrary: m answers)
  case Nil
  then show ?case by simp
next
  case (Cons x xs)
  have z: "zip [m..<m + length (x # xs)] (x # xs) = (m, x) # zip [Suc m..<Suc m + length xs] xs"
    by (simp add: upt_conv_Cons del: upt_Suc)
  have fx: "f x = Inr (r x)" using Cons.prems(1) by simp
  have len: "Suc m + length xs \<le> length (answers[m := Some (r x)])" using Cons.prems(2) by simp
  have rest: "\<forall>y \<in> set xs. f y = Inr (r y)" using Cons.prems(1) by simp
  have m: "m < length answers" using Cons.prems(2) by simp
  have "parmap_run f (zip [m..<m + length (x # xs)] (x # xs)) live answers
      = parmap_run f (zip [Suc m..<Suc m + length xs] xs) live (answers[m := Some (r x)])"
    unfolding z using assms(1) fx by simp
  also have "\<dots> = take (Suc m) (answers[m := Some (r x)]) @ map (\<lambda>x. Some (r x)) xs
      @ drop (Suc m + length xs) (answers[m := Some (r x)])"
    using rest len by (rule Cons.IH)
  also have "take (Suc m) (answers[m := Some (r x)]) = take m answers @ [Some (r x)]"
    using m by (simp add: take_Suc_conv_app_nth)
  also have "drop (Suc m + length xs) (answers[m := Some (r x)]) = drop (m + length (x # xs)) answers"
    by simp
  finally show ?case by simp
qed

lemma parmap_all_ok:
  assumes "0 < cpus" and "\<forall>x \<in> set js. f x = Inr (r x)"
  shows "parmap cpus f js = map (\<lambda>x. Some (r x)) js"
  using parmap_run_all_ok [OF assms, of 0 "replicate (length js) None"]
  by (simp add: parmap_def)

lemma concatenate_answers_some:
  "rs \<noteq> [] \<Longrightarrow> concatenate_answers (map Some rs) = Inr (concat rs)"
  by (auto simp: concatenate_answers_def comp_def)

lemma slice_map: "slice (map f xs) a b = map f (slice xs a b)"
  by (simp add: slice_def take_map drop_map)

lemma slice_all: "slice xs 0 (length xs) = xs"
  by (simp add: slice_def)

lemma slice_nonempty: "a < b \<Longrightarrow> a < length xs \<Longrightarrow> slice xs a b \<noteq> []"
  by (simp add: slice_def)

lemma component_delay_zenith:
  assumes "\<And>ps. delay ps = Inr (map q ps)" and "llas \<noteq> []"
  shows "common_delay g delay (map fst llas) (map (\<lambda>p. fst (snd p)) llas) (map (\<lambda>p. snd (snd p)) llas)
           Zenith True = Inr (map (zenith_ray_delay g q) llas)"
proof -
  let ?lats = "map fst llas" and ?lons = "map (\<lambda>p. fst (snd p)) llas" and ?hts = "map (\<lambda>p. snd (snd p)) llas"
  have pos: "0 < length ?lats" using assms(2) by simp
  have cols: "map (\<lambda>i. zenith_ray_delay g q (?lats ! i, ?lons ! i, ?hts ! i)) [0..<length llas]
      = map (zenith_ray_delay g q) llas"
    by (rule nth_equalityI) simp_all
  show ?thesis
    using common_delay_zenith [of delay q ?lons ?lats ?hts g, OF assms(1) _ _ pos]
    by (simp add: cols)
qed

lemma go_zenith_slice:
  assumes hydro: "\<And>ps. wm_hydrostatic_delay w ps = Inr (map qh ps)"
    and wet: "\<And>ps. wm_wet_delay w ps = Inr (map qw ps)"
    and ab: "a < b" "a < length llas"
  shows "go g w (map fst llas) (map (\<lambda>p. fst (snd p)) llas) (map (\<lambda>p. snd (snd p)) llas)
           Zenith True (''hydro'', a, b) = Inr (map (zenith_ray_delay g qh) (slice llas a b))"
    and "go g w (map fst llas) (map (\<lambda>p. fst (snd p)) llas) (map (\<lambda>p. snd (snd p)) llas)
           Zenith True (''wet'', a, b) = Inr (map (zenith_ray_delay g qw) (slice llas a b))"
proof -
  have ne: "slice llas a b \<noteq> []" using ab by (rule slice_nonempty)
  show "go g w (map fst llas) (map (\<lambda>p. fst (snd p)) llas) (map (\<lambda>p. snd (snd p)) llas)
           Zenith True (''hydro'', a, b) = Inr (map (zenith_ray_delay g qh) (slice llas a b))"
    using component_delay_zenith [of "wm_hydrostatic_delay w" qh "slice llas a b" g, OF hydro ne]
    by (simp add: go_def hydrostatic_delay_def slice_map)
  show "go g w (map fst llas) (map (\<lambda>p. fst (snd p)) llas) (map (\<lambda>p. snd (snd p)) llas)
           Zenith True (''wet'', a, b) = Inr (map (zenith_ray_delay g qw) (slice llas a b))"
    using component_delay_zenith [of "wm_wet_delay w" qw "slice llas a b" g, OF wet ne]
    by (simp add: go_def wet_delay_def slice_map)
qed

lemma parallel_equals_serial_even:
  assumes hydro: "\<And>ps. wm_hydrostatic_delay w ps = Inr (map qh ps)"
    and wet: "\<And>ps. wm_wet_delay w ps = Inr (map qw ps)"
    and k: "1 \<le> k" "k \<le> length llas"
  shows "delay_from_grid g (2 * k) w llas Zenith True True
     = Inr (map (zenith_ray_delay g qh) llas, map (zenith_ray_delay g qw) llas)"
    and "delay_from_grid g (2 * k) w llas Zenith True True
     = delay_from_grid g (2 * k) w llas Zenith False True"
proof -
  define n where "n = length llas"
  define b where "b = (\<lambda>i. (i * n) div k)"
  define f where "f = go g w (map fst llas) (map (\<lambda>p. fst (snd p)) llas) (map (\<lambda>p. snd (snd p)) llas)
      Zenith True"
  define hjobs where "hjobs = map (\<lambda>i. (''hydro'', b i, b (Suc i))) [0..<k]"
  define wjobs where "wjobs = map (\<lambda>i. (''wet'', b i, b (Suc i))) [0..<k]"
  define r where "r = (\<lambda>j :: job. case j of (ty, a, c) \<Rightarrow>
      map (zenith_ray_delay g (if ty = ''hydro'' then qh else qw)) (slice llas a c))"
  have kpos: "0 < k" using k by simp
  have ne: "llas \<noteq> []" using k by auto
  have b0: "b 0 = 0" and bk: "b k = n"
    using boundaries_tile(1,2) [OF k(1), of n] by (simp_all add: b_def)
  have mono: "b i \<le> b j" if "i \<le> j" for i j
    unfolding b_def using k(1) that by (rule boundaries_tile(3))
  have "1 \<le> n div k" using k kpos by (simp add: n_def less_eq_div_iff_mult_less_eq)
  then have strict: "b i < b (Suc i)" for i
    using boundaries_tile(4) [OF k(1), of n i] by (simp add: b_def)
  have inside: "b i < length llas" if "i < k" for i
  proof -
    have "b (Suc i) \<le> b k" using that by (intro mono) simp
    then show ?thesis using strict [of i] bk by (simp add: n_def)
  qed
  have jobs: "dispatch_jobs (2 * k) (length llas) = Inr (hjobs @ wjobs)"
    unfolding hjobs_def wjobs_def b_def n_def using k(1) by (rule dispatch_jobs_even)
  have ok: "\<forall>j \<in> set (hjobs @ wjobs). f j = Inr (r j)"
    unfolding f_def r_def hjobs_def wjobs_def
    using go_zenith_slice [OF hydro wet strict inside] by auto
  have res: "parmap (2 * k) f (hjobs @ wjobs) = map Some (map r hjobs) @ map Some (map r wjobs)"
    using parmap_all_ok [of "2 * k" "hjobs @ wjobs" f r] kpos ok by (simp add: comp_def)
  have lh: "length (map Some (map r hjobs)) = k" by (simp add: hjobs_def)
  have tk: "take k (parmap (2 * k) f (hjobs @ wjobs)) = map Some (map r hjobs)"
    and dk: "drop k (parmap (2 * k) f (hjobs @ wjobs)) = map Some (map r wjobs)"
    unfolding res using lh by simp_all
  have tile: "concat (map (\<lambda>i. slice llas (b i) (b (Suc i))) [0..<k]) = llas"
    using concat_slices [of k b llas] mono b0 bk by (simp add: n_def slice_all)
  have ch: "concat (map r hjobs) = map (zenith_ray_delay g qh) llas"
  proof -
    have "concat (map r hjobs) = map (zenith_ray_delay g qh) (concat (map (\<lambda>i. slice llas (b i) (b (Suc i))) [0..<k]))"
      by (simp add: r_def hjobs_def comp_def map_concat)
    then show ?thesis by (simp add: tile)
  qed
  have cw: "concat (map r wjobs) = map (zenith_ray_delay g qw) llas"
  proof -
    have "concat (map r wjobs) = map (zenith_ray_delay g qw) (concat (map (\<lambda>i. slice llas (b i) (b (Suc i))) [0..<k]))"
      by (simp add: r_def wjobs_def comp_def map_concat)
    then show ?thesis by (simp add: tile)
  qed
  have hne: "map r hjobs \<noteq> []" and wne: "map r wjobs \<noteq> []"
    using kpos by (simp_all add: hjobs_def wjobs_def)
  have d: "2 * k div 2 = k" by simp
  have ca_h: "concatenate_answers (take k (parmap (2 * k) f (hjobs @ wjobs)))
      = Inr (map (zenith_ray_delay g qh) llas)"
    unfolding tk concatenate_answers_some [OF hne] ch ..
  have ca_w: "concatenate_answers (drop k (parmap (2 * k) f (hjobs @ wjobs)))
      = Inr (map (zenith_ray_delay g qw) llas)"
    unfolding dk concatenate_answers_some [OF wne] cw ..
  show par: "delay_from_grid g (2 * k) w llas Zenith True True
     = Inr (map (zenith_ray_delay g qh) llas, map (zenith_ray_delay g qw) llas)"
    unfolding delay_from_grid_def Let_def jobs d
    by (simp add: prepare_los_def ca_h [unfolded f_def] ca_w [unfolded f_def])
  show "delay_from_grid g (2 * k) w llas Zenith True True
     = delay_from_grid g (2 * k) w llas Zenith False True"
    unfolding par using delay_from_grid_serial_zenith [OF hydro wet ne, of g "2 * k"] by simp
qed

lemma sample_rays_map:
  assumes "length lv = length lats"
  shows "sample_rays g lats lons hts lv
     = Inr (map (\<lambda>i. ray_body g (lla2ecef g (lats ! i) (lons ! i) (hts ! i)) (norm3 (lv ! i))
                     (nat \<lceil>norm3 (lv ! i) / STEP\<rceil>) (sdiv (lv ! i) (norm3 (lv ! i))))
            [0..<length lats])"
proof -
  define sp where "sp = map (\<lambda>i. lla2ecef g (lats ! i) (lons ! i) (hts ! i)) [0..<length lats]"
  define ls where "ls = map norm3 lv"
  define st where "st = map (\<lambda>l. nat \<lceil>l / STEP\<rceil>) ls"
  define dv where "dv = map (\<lambda>i. sdiv (lv ! i) (ls ! i)) [0..<length lv]"
  have lenst: "length st = length lats" by (simp add: st_def ls_def assms)
  have "ray_loop g sp ls st dv [0..<length st]
      = Inr (map (\<lambda>i. ray_body g (sp ! i) (ls ! i) (st ! i) (dv ! i)) [0..<length st])"
    by (rule ray_loop_map) (simp add: lenst sp_def)
  also have "map (\<lambda>i. ray_body g (sp ! i) (ls ! i) (st ! i) (dv ! i)) [0..<length st]
      = map (\<lambda>i. ray_body g (lla2ecef g (lats ! i) (lons ! i) (hts ! i)) (norm3 (lv ! i))
                     (nat \<lceil>norm3 (lv ! i) / STEP\<rceil>) (sdiv (lv ! i) (norm3 (lv ! i))))
            [0..<length lats]"
    unfolding lenst
    by (rule map_cong) (simp_all add: sp_def ls_def st_def dv_def assms)
  finally show ?thesis
    unfolding sample_rays_def Let_def
      sp_def [symmetric] ls_def [symmetric] st_def [symmetric] dv_def [symmetric] .
qed

lemma linspace_sampler_facts:
  assumes "0 < l"
  shows "let n = nat \<lceil>l / STEP\<rceil>; ts = linspace 0 l n
         in length ts = n \<and> 1 \<le> n \<and> ts ! 0 = 0
          \<and> (n = 1 \<longleftrightarrow> l \<le> STEP)
          \<and> (n = 1 \<longrightarrow> ts = [0])
          \<and> (2 \<le> n \<longrightarrow>
                last ts = l
              \<and> (\<forall>i. Suc i < n \<longrightarrow> ts ! Suc i - ts ! i = l / real (n - 1))
              \<and> STEP < l / real (n - 1)
              \<and> l / real (n - 1) \<le> 2 * STEP)"
proof -
  define n where "n = nat \<lceil>l / STEP\<rceil>"
  define ts where "ts = linspace 0 l n"
  have n1: "1 \<le> n" unfolding n_def using assms by (rule steps_ge1)
  have len: "length ts = n" by (simp add: ts_def linspace_length)
  have first: "ts ! 0 = 0" using n1 by (simp add: ts_def linspace_def)
  have one: "n = 1 \<longleftrightarrow> l \<le> STEP" unfolding n_def using assms by (rule steps_one_iff)
  have single: "n = 1 \<longrightarrow> ts = [0]" by (simp add: ts_def linspace_def)
  have many: "last ts = l \<and> (\<forall>i. Suc i < n \<longrightarrow> ts ! Suc i - ts ! i = l / real (n - 1))
      \<and> STEP < l / real (n - 1) \<and> l / real (n - 1) \<le> 2 * STEP" if n2: "2 \<le> n"
  proof -
    have ne: "ts \<noteq> []" using len n2 by auto
    have "last ts = ts ! (n - 1)" using ne len by (simp add: last_conv_nth)
    also have "\<dots> = real (n - 1) * (l / real (n - 1))"
      using n2 by (simp add: ts_def linspace_nth)
    also have "\<dots> = l" using n2 by simp
    finally have a: "last ts = l" .
    have b: "ts ! Suc i - ts ! i = l / real (n - 1)" if "Suc i < n" for i
      using that n2 by (simp add: ts_def linspace_nth algebra_simps add_divide_distrib)
    from spacing_bounds [OF assms] n2 have "STEP < l / real (n - 1)" "l / real (n - 1) \<le> 2 * STEP"
      unfolding n_def by simp_all
    with a b show ?thesis by blast
  qed
  show ?thesis
    unfolding Let_def n_def [symmetric] ts_def [symmetric]
    using len n1 first one single many by blast
qed

lemma up_vec_origin: "up_vec 0 0 = (1, 0, 0)"
  by (simp add: up_vec_def cosd_def sind_def)

lemma sample_zenith_single:
  assumes "h < 15000"
  shows "sample_rays demo_geo [0] [0] [h] (zenith_vecs demo_geo [0] [0] [h])
     = Inr [ray_body demo_geo (6371000 + h, 0, 0) (15000 - h) (nat \<lceil>(15000 - h) / STEP\<rceil>) (1, 0, 0)]"
proof -
  have zv: "zenith_vecs demo_geo [0] [0] [h] = [(15000 - h, 0, 0)]"
    by (simp add: zenith_vecs_def demo_geo_def sphere_geo_def up_vec_origin smul_def)
  have n: "norm3 (15000 - h, 0, 0) = 15000 - h" using assms by (simp add: norm3_axis)
  have d: "sdiv (15000 - h, 0, 0) (15000 - h) = (1, 0, 0)" using assms by (simp add: sdiv_def)
  have s: "lla2ecef demo_geo 0 0 h = (6371000 + h, 0, 0)"
    by (simp add: demo_geo_def sphere_geo_def up_vec_origin smul_def)
  show ?thesis
    unfolding zv using sample_rays_map [of "[(15000 - h, 0, 0)]" "[0]" demo_geo "[0]" "[h]"]
    by (simp add: n d s)
qed

lemma demo_height: "0 \<le> x \<Longrightarrow> height_of demo_geo (x, 0, 0) = x - 6371000"
  by (simp add: height_of_def demo_geo_def sphere_geo_def norm3_axis)

lemma demo_zref: "zref demo_geo = 15000"
  by (simp add: demo_geo_def sphere_geo_def)

lemma sample_45:
  "sample_rays demo_geo [0] [0] [14955] (zenith_vecs demo_geo [0] [0] [14955])
     = Inr [(3, [0, 45 / 2, 45], [(6385955, 0, 0), (12771955 / 2, 0, 0), (6386000, 0, 0)])]"
proof -
  have n: "nat \<lceil>45 / STEP\<rceil> = 3" by (simp add: STEP_def)
  show ?thesis
    using sample_zenith_single [of 14955]
    by (simp add: n ray_body_takeWhile linspace_def upt3 vadd_def smul_def demo_height demo_zref)
qed

lemma sample_30:
  "sample_rays demo_geo [0] [0] [14970] (zenith_vecs demo_geo [0] [0] [14970])
     = Inr [(2, [0, 30], [(6385970, 0, 0), (6386000, 0, 0)])]"
proof -
  have n: "nat \<lceil>30 / STEP\<rceil> = 2" by (simp add: STEP_def)
  have u: "[0..<2] = [0, 1]" by (simp add: upt_rec)
  show ?thesis
    using sample_zenith_single [of 14970]
    by (simp add: n ray_body_takeWhile linspace_def u vadd_def smul_def demo_height demo_zref)
qed

lemma sample_10:
  "sample_rays demo_geo [0] [0] [14990] (zenith_vecs demo_geo [0] [0] [14990])
     = Inr [(1, [0], [(6385990, 0, 0)])]"
proof -
  have n: "nat \<lceil>10 / STEP\<rceil> = 1" by (simp add: STEP_def)
  show ?thesis
    using sample_zenith_single [of 14990]
    by (simp add: n ray_body_takeWhile linspace_def vadd_def smul_def demo_height demo_zref)
qed

lemma takeWhile_all_but_last:
  assumes "\<forall>j. Suc j < length xs \<longrightarrow> P (xs ! j)"
  shows "takeWhile P xs = (if xs = [] \<or> P (last xs) then xs else butlast xs)"
proof (cases "xs = []")
  case True
  then show ?thesis by simp
next
  case False
  then have split: "xs = butlast xs @ [last xs]" by simp
  have "\<forall>x \<in> set (butlast xs). P x"
  proof
    fix x assume "x \<in> set (butlast xs)"
    then obtain j where j: "j < length (butlast xs)" and x: "x = butlast xs ! j"
      by (auto simp: in_set_conv_nth)
    then have "Suc j < length xs" by simp
    with assms have "P (xs ! j)" by blast
    then show "P x" using j x by (simp add: nth_butlast)
  qed
  then have "takeWhile P (butlast xs @ [last xs]) = butlast xs @ takeWhile P [last xs]"
    by simp
  then have tw: "takeWhile P xs = butlast xs @ takeWhile P [last xs]"
    using split by simp
  show ?thesis
  proof (cases "P (last xs)")
    case True
    then have "takeWhile P xs = butlast xs @ [last xs]" unfolding tw by simp
    then show ?thesis using True False by simp
  next
    case no: False
    then have "takeWhile P xs = butlast xs" unfolding tw by simp
    then show ?thesis using no False by simp
  qed
qed

lemma trapz_sum_const_prefix:
  assumes "2 \<le> n" and "k \<le> n" and "length ps = k"
  shows "trapz_sum (map (\<lambda>_. c) ps) (take k (linspace 0 l n)) = c * (real (k - 1) * (l / real (n - 1)))"
proof -
  have lk: "length (take k (linspace 0 l n)) = k" using assms(2) by (simp add: linspace_length)
  have "map (\<lambda>i. (take k (linspace 0 l n) ! Suc i - take k (linspace 0 l n) ! i)
            * (map (\<lambda>_. c) ps ! Suc i + map (\<lambda>_. c) ps ! i) / 2) [0..<k - 1]
      = map (\<lambda>i. c * (l / real (n - 1))) [0..<k - 1]"
  proof (rule map_cong [OF refl])
    fix i assume "i \<in> set [0..<k - 1]"
    then have i: "Suc i < k" by auto
    then have in': "Suc i < n" using assms(2) by simp
    have "linspace 0 l n ! Suc i - linspace 0 l n ! i = l / real (n - 1)"
      using in' assms(1) by (simp add: linspace_nth algebra_simps add_divide_distrib)
    then have "take k (linspace 0 l n) ! Suc i - take k (linspace 0 l n) ! i = l / real (n - 1)"
      using i by simp
    moreover have "map (\<lambda>_. c) ps ! Suc i = c" "map (\<lambda>_. c) ps ! i = c"
      using i assms(3) by simp_all
    ultimately show "(take k (linspace 0 l n) ! Suc i - take k (linspace 0 l n) ! i)
            * (map (\<lambda>_. c) ps ! Suc i + map (\<lambda>_. c) ps ! i) / 2 = c * (l / real (n - 1))"
      by simp
  qed
  then have "trapz_sum (map (\<lambda>_. c) ps) (take k (linspace 0 l n))
      = sum_list (map (\<lambda>i. c * (l / real (n - 1))) [0..<k - 1])"
    unfolding trapz_sum_def lk by (rule arg_cong)
  also have "\<dots> = real (k - 1) * (c * (l / real (n - 1)))"
    by (rule sum_list_const_upt)
  finally show ?thesis by (simp add: algebra_simps)
qed

lemma linspace_last: "2 \<le> n \<Longrightarrow> last (linspace 0 l n) = l"
proof -
  assume n2: "2 \<le> n"
  have ne: "linspace 0 l n \<noteq> []" using n2 by (auto simp: linspace_def)
  have "last (linspace 0 l n) = linspace 0 l n ! (n - 1)"
    using ne by (simp add: last_conv_nth linspace_length)
  also have "\<dots> = real (n - 1) * (l / real (n - 1))" using n2 by (simp add: linspace_nth)
  also have "\<dots> = l" using n2 by simp
  finally show ?thesis .
qed

lemma ray_delay_zenith_const_rounded:
  assumes L: "0 < L"
    and geom: "\<forall>t. 0 \<le> t \<and> t \<le> L \<longrightarrow>
        \<bar>height_of g (vadd s (smul t (up_vec lat lon))) - (h + t)\<bar> \<le> STEP"
    and top: "h + L = zref g"
  shows "ray_delay g (\<lambda>_. c) s (smul L (up_vec lat lon))
      = (if L \<le> STEP then 0
         else if zref g < height_of g (vadd s (smul L (up_vec lat lon)))
         then (1 / 1000000) * (c * (L - L / real (nat \<lceil>L / STEP\<rceil> - 1)))
         else (1 / 1000000) * (c * L))"
proof -
  define n where "n = nat \<lceil>L / STEP\<rceil>"
  define f where "f = (\<lambda>t. vadd s (smul t (up_vec lat lon)))"
  define P where "P = (\<lambda>p. height_of g p \<le> zref g)"
  define ts where "ts = linspace 0 L n"
  have len: "norm3 (smul L (up_vec lat lon)) = L"
    using L by (simp add: norm3_smul norm3_up_vec)
  have dir: "sdiv (smul L (up_vec lat lon)) L = up_vec lat lon"
    using L by (simp add: sdiv_smul)
  have rb: "ray_body g s L n (up_vec lat lon)
      = (length (takeWhile P (map f ts)), take (length (takeWhile P (map f ts))) ts, takeWhile P (map f ts))"
    unfolding P_def f_def ts_def by (rule ray_body_takeWhile)
  have val: "ray_delay g (\<lambda>_. c) s (smul L (up_vec lat lon))
      = (1 / 1000000) * trapz_sum (map (\<lambda>_. c) (takeWhile P (map f ts)))
          (take (length (takeWhile P (map f ts))) ts)"
    unfolding ray_delay_def Let_def len dir n_def [symmetric] rb by simp
  have n1: "1 \<le> n" unfolding n_def using L by (rule steps_ge1)
  have lts: "length ts = n" by (simp add: ts_def linspace_length)
  show ?thesis
  proof (cases "L \<le> STEP")
    case True
    then have "n = 1" unfolding n_def using steps_one_iff [OF L] by simp
    then have "length (take (length (takeWhile P (map f ts))) ts) \<le> 1" by (simp add: lts)
    then have "trapz_sum (map (\<lambda>_. c) (takeWhile P (map f ts)))
          (take (length (takeWhile P (map f ts))) ts) = 0"
      by (rule trapz_sum_short)
    then show ?thesis using True unfolding val by simp
  next
    case False
    then have "n \<noteq> 1" unfolding n_def using steps_one_iff [OF L] by simp
    with n1 have n2: "2 \<le> n" by simp
    have sp: "STEP < L / real (n - 1)"
      using spacing_bounds(1) [OF L] n2 unfolding n_def by simp
    have m: "0 < real (n - 1)" using n2 by simp
    have interior: "\<forall>j. Suc j < length (map f ts) \<longrightarrow> P (map f ts ! j)"
    proof (intro allI impI)
      fix j assume "Suc j < length (map f ts)"
      then have j: "Suc j < n" by (simp add: lts)
      then have jn: "j < n" by simp
      have tj: "ts ! j = real j * (L / real (n - 1))"
        unfolding ts_def using jn n2 by (simp add: linspace_nth)
      have "real j \<le> real (n - 1) - 1" using j by (simp add: of_nat_diff)
      then have "real j * (L / real (n - 1)) \<le> (real (n - 1) - 1) * (L / real (n - 1))"
        using L m by (intro mult_right_mono) simp_all
      also have "\<dots> = L - L / real (n - 1)" using m by (simp add: field_simps)
      finally have up: "ts ! j \<le> L - L / real (n - 1)" unfolding tj .
      define gap where "gap = L / real (n - 1)"
      have up': "ts ! j \<le> L - gap" and sp': "STEP < gap" and gp: "0 < gap"
        using up sp L m by (simp_all add: gap_def)
      have lo: "0 \<le> ts ! j" unfolding tj using L m by simp
      have "ts ! j \<le> L" using up' gp by linarith
      with geom lo have "\<bar>height_of g (f (ts ! j)) - (h + ts ! j)\<bar> \<le> STEP"
        unfolding f_def by blast
      then have "height_of g (f (ts ! j)) \<le> h + ts ! j + STEP" by linarith
      also have "\<dots> < h + L" using up' sp' by linarith
      finally have "height_of g (f (ts ! j)) \<le> zref g" using top by simp
      then show "P (map f ts ! j)" using jn by (simp add: P_def lts)
    qed
    have ne: "map f ts \<noteq> []" using n2 lts by auto
    have lastp: "last (map f ts) = f L"
      using ne linspace_last [OF n2, of L] by (simp add: last_map ts_def)
    have tw: "takeWhile P (map f ts) = (if P (f L) then map f ts else butlast (map f ts))"
      using takeWhile_all_but_last [OF interior] ne lastp by simp
    show ?thesis
    proof (cases "P (f L)")
      case True
      have "trapz_sum (map (\<lambda>_. c) (map f ts)) (take n ts) = c * (real (n - 1) * (L / real (n - 1)))"
        unfolding ts_def using n2 by (intro trapz_sum_const_prefix) (simp_all add: linspace_length)
      also have "\<dots> = c * L" using m by simp
      finally have "trapz_sum (map (\<lambda>_. c) (takeWhile P (map f ts)))
          (take (length (takeWhile P (map f ts))) ts) = c * L"
        using True by (simp add: tw lts)
      moreover have "\<not> zref g < height_of g (vadd s (smul L (up_vec lat lon)))"
        using True by (simp add: P_def f_def)
      ultimately show ?thesis using False unfolding val n_def [symmetric] by simp
    next
      case no: False
      have "trapz_sum (map (\<lambda>_. c) (butlast (map f ts))) (take (n - 1) ts)
          = c * (real (n - 1 - 1) * (L / real (n - 1)))"
        unfolding ts_def using n2 by (intro trapz_sum_const_prefix) (simp_all add: linspace_length)
      also have "real (n - 1 - 1) = real (n - 1) - 1" using n2 by (simp add: of_nat_diff)
      also have "c * ((real (n - 1) - 1) * (L / real (n - 1))) = c * (L - L / real (n - 1))"
        using m by (simp add: field_simps)
      finally have "trapz_sum (map (\<lambda>_. c) (takeWhile P (map f ts)))
          (take (length (takeWhile P (map f ts))) ts) = c * (L - L / real (n - 1))"
        using no by (simp add: tw lts)
      moreover have "zref g < height_of g (vadd s (smul L (up_vec lat lon)))"
        using no by (simp add: P_def f_def)
      ultimately show ?thesis using False unfolding val n_def [symmetric] by simp
    qed
  qed
qed

lemma common_delay_zenith_const_rounded:
  assumes model: "\<And>ps. delay ps = Inr (map (\<lambda>_. c) ps)"
    and len: "length lons = length lats" "length hts = length lats"
    and i: "i < length lats"
    and L: "0 < zref g - hts ! i"
    and geom: "\<forall>t. 0 \<le> t \<and> t \<le> zref g - hts ! i \<longrightarrow>
        \<bar>height_of g (vadd (lla2ecef g (lats ! i) (lons ! i) (hts ! i))
                       (smul t (up_vec (lats ! i) (lons ! i)))) - (hts ! i + t)\<bar> \<le> STEP"
  shows "\<exists>ds. common_delay g delay lats lons hts Zenith True = Inr ds
      \<and> length ds = length lats
      \<and> ds ! i =
          (if zref g - hts ! i \<le> STEP then 0
           else if zref g < height_of g (vadd (lla2ecef g (lats ! i) (lons ! i) (hts ! i))
                                (smul (zref g - hts ! i) (up_vec (lats ! i) (lons ! i))))
           then (1 / 1000000) * c
                  * (zref g - hts ! i
                     - (zref g - hts ! i) / real (nat \<lceil>(zref g - hts ! i) / STEP\<rceil> - 1))
           else (1 / 1000000) * c * (zref g - hts ! i))
      \<and> \<bar>ds ! i - (1 / 1000000) * c * (zref g - hts ! i)\<bar> \<le> (1 / 1000000) * \<bar>c\<bar> * (2 * STEP)"
proof -
  define L where "L = zref g - hts ! i"
  define n where "n = nat \<lceil>L / STEP\<rceil>"
  define s where "s = lla2ecef g (lats ! i) (lons ! i) (hts ! i)"
  define u where "u = up_vec (lats ! i) (lons ! i)"
  define ds where "ds = map (\<lambda>i. zenith_ray_delay g (\<lambda>_. c) (lats ! i, lons ! i, hts ! i)) [0..<length lats]"
  have pos: "0 < length lats" using i by (cases lats) simp_all
  have Lpos: "0 < L" using L by (simp add: L_def)
  have top: "hts ! i + L = zref g" by (simp add: L_def)
  have cd: "common_delay g delay lats lons hts Zenith True = Inr ds"
    unfolding ds_def using model len pos by (rule common_delay_zenith)
  have "ds ! i = ray_delay g (\<lambda>_. c) s (smul L (up_vec (lats ! i) (lons ! i)))"
    using i by (simp add: ds_def zenith_ray_delay_def L_def s_def)
  also have "\<dots> = (if L \<le> STEP then 0
         else if zref g < height_of g (vadd s (smul L (up_vec (lats ! i) (lons ! i))))
         then (1 / 1000000) * (c * (L - L / real (nat \<lceil>L / STEP\<rceil> - 1)))
         else (1 / 1000000) * (c * L))"
    using Lpos geom top unfolding L_def [symmetric] s_def [symmetric]
    by (rule ray_delay_zenith_const_rounded)
  finally have val: "ds ! i = (if L \<le> STEP then 0
         else if zref g < height_of g (vadd s (smul L u))
         then (1 / 1000000) * c * (L - L / real (n - 1))
         else (1 / 1000000) * c * L)"
    by (simp add: u_def n_def)
  have bound: "\<bar>ds ! i - (1 / 1000000) * c * L\<bar> \<le> (1 / 1000000) * \<bar>c\<bar> * (2 * STEP)"
  proof (cases "L \<le> STEP")
    case True
    then have "\<bar>c\<bar> * L \<le> \<bar>c\<bar> * (2 * STEP)"
      by (intro mult_left_mono) (simp_all add: STEP_def)
    then show ?thesis using True Lpos by (simp add: val abs_mult algebra_simps)
  next
    case False
    then have "n \<noteq> 1" unfolding n_def using steps_one_iff [OF Lpos] by simp
    moreover have "1 \<le> n" unfolding n_def using Lpos by (rule steps_ge1)
    ultimately have n2: "2 \<le> nat \<lceil>L / STEP\<rceil>" by (simp add: n_def)
    define gap where "gap = L / real (n - 1)"
    have g2: "gap \<le> 2 * STEP" and g0: "0 < gap"
      using spacing_bounds [OF Lpos n2] by (simp_all add: gap_def n_def STEP_def)
    show ?thesis
    proof (cases "zref g < height_of g (vadd s (smul L u))")
      case True
      have v: "ds ! i = (1 / 1000000) * c * (L - gap)"
        using True False unfolding gap_def by (simp add: val)
      have "ds ! i - (1 / 1000000) * c * L = - ((1 / 1000000) * c * gap)"
        unfolding v by (simp add: field_simps)
      then have "\<bar>ds ! i - (1 / 1000000) * c * L\<bar> = (1 / 1000000) * (\<bar>c\<bar> * gap)"
        using g0 by (simp add: abs_mult)
      also have "\<bar>c\<bar> * gap \<le> \<bar>c\<bar> * (2 * STEP)" using g2 by (intro mult_left_mono) simp_all
      finally show ?thesis by simp
    next
      case no: False
      then show ?thesis using False by (simp add: val STEP_def)
    qed
  qed
  have "length ds = length lats" by (simp add: ds_def)
  with cd val bound show ?thesis unfolding L_def n_def s_def u_def by blast
qed

lemma biased_vertical:
  assumes "0 \<le> R + h" and "0 \<le> t"
  shows "height_of (biased_geo R zr e)
           (vadd (lla2ecef (biased_geo R zr e) lat lon h) (smul t (up_vec lat lon))) = h + t + e"
  using assms by (simp add: height_of_def biased_geo_def vadd_smul_smul norm3_smul norm3_up_vec)

subsection \<open>The sampler\<close>

text \<open>
  C5 (as amended). \<open>sample_rays\<close> is the sampler of \<^verbatim>\<open>_common_delay\<close>. For every ray
  of a batch whose look vector has positive length \<open>l\<close>, it generates exactly
  \<open>n = ceil(l / STEP)\<close> path parameters \<open>ts\<close>, at least one, the first of them 0, and what
  it returns for the ray is computed from these: the index of the first position above the
  reference height and the prefixes of \<open>ts\<close> and of the positions up to it;
  \<open>integrate_rays\<close> queries the weather model at these kept positions and integrates over
  these kept parameters. There is a
  single parameter, 0 alone, exactly when \<open>l \<le> STEP\<close>. When there are two or more they are
  evenly spaced from 0 to \<open>l\<close> inclusive, and the spacing \<open>l / (n - 1)\<close> is more than
  \<open>STEP\<close> and at most twice \<open>STEP\<close>.
\<close>

theorem sampler_parameters:
  assumes lv: "length lv = length lats"
    and i: "i < length lats"
    and pos: "0 < norm3 (lv ! i)"
  shows "\<exists>rays. sample_rays g lats lons hts lv = Inr rays \<and> length rays = length lats
      \<and> integrate_rays g delay lats lons hts lv
          = (case delay (concat (map (\<lambda>r. snd (snd r)) rays)) of
               Inl e \<Rightarrow> Inl e
             | Inr wet_delays \<Rightarrow>
                 integrate_loop wet_delays ((roll1 (cumsum (map fst rays)))[0 := 0]) (map fst rays)
                   (map (\<lambda>r. fst (snd r)) rays) [0..<length rays] (replicate (length lats) 0))
      \<and> (let l = norm3 (lv ! i);
              n = nat \<lceil>l / STEP\<rceil>;
              ts = linspace 0 l n;
              start = lla2ecef g (lats ! i) (lons ! i) (hts ! i);
              position = map (\<lambda>t. vadd start (smul t (sdiv (lv ! i) l))) ts;
              k = too_high g position (zref g)
          in rays ! i = ray_body g start l n (sdiv (lv ! i) l)
           \<and> rays ! i = (k, take k ts, take k position)
           \<and> length ts = n \<and> 1 \<le> n \<and> ts ! 0 = 0
           \<and> (n = 1 \<longleftrightarrow> l \<le> STEP)
           \<and> (n = 1 \<longrightarrow> ts = [0])
           \<and> (2 \<le> n \<longrightarrow>
                 last ts = l
               \<and> (\<forall>j. Suc j < n \<longrightarrow> ts ! Suc j - ts ! j = l / real (n - 1))
               \<and> STEP < l / real (n - 1)
               \<and> l / real (n - 1) \<le> 2 * STEP))"
proof -
  define rays where "rays = map (\<lambda>i. ray_body g (lla2ecef g (lats ! i) (lons ! i) (hts ! i)) (norm3 (lv ! i))
                     (nat \<lceil>norm3 (lv ! i) / STEP\<rceil>) (sdiv (lv ! i) (norm3 (lv ! i))))
            [0..<length lats]"
  have sr: "sample_rays g lats lons hts lv = Inr rays"
    unfolding rays_def using lv by (rule sample_rays_map)
  have len: "length rays = length lats" by (simp add: rays_def)
  have ne: "map (\<lambda>r. snd (snd r)) rays \<noteq> []" using i len by auto
  have ir: "integrate_rays g delay lats lons hts lv
          = (case delay (concat (map (\<lambda>r. snd (snd r)) rays)) of
               Inl e \<Rightarrow> Inl e
             | Inr wet_delays \<Rightarrow>
                 integrate_loop wet_delays ((roll1 (cumsum (map fst rays)))[0 := 0]) (map fst rays)
                   (map (\<lambda>r. fst (snd r)) rays) [0..<length rays] (replicate (length lats) 0))"
    unfolding integrate_rays_def sr Let_def using ne
    by (simp add: concatenate_def split: sum.splits)
  have ri: "rays ! i = ray_body g (lla2ecef g (lats ! i) (lons ! i) (hts ! i)) (norm3 (lv ! i))
                     (nat \<lceil>norm3 (lv ! i) / STEP\<rceil>) (sdiv (lv ! i) (norm3 (lv ! i)))"
    using i by (simp add: rays_def)
  have rb: "ray_body g s l n d
      = (too_high g (map (\<lambda>t. vadd s (smul t d)) (linspace 0 l n)) (zref g),
         take (too_high g (map (\<lambda>t. vadd s (smul t d)) (linspace 0 l n)) (zref g)) (linspace 0 l n),
         take (too_high g (map (\<lambda>t. vadd s (smul t d)) (linspace 0 l n)) (zref g))
           (map (\<lambda>t. vadd s (smul t d)) (linspace 0 l n)))" for s l n d
    by (simp add: ray_body_def Let_def)
  define l where "l = norm3 (lv ! i)"
  define n where "n = nat \<lceil>l / STEP\<rceil>"
  define ts where "ts = linspace 0 l n"
  define start where "start = lla2ecef g (lats ! i) (lons ! i) (hts ! i)"
  define position where "position = map (\<lambda>t. vadd start (smul t (sdiv (lv ! i) l))) ts"
  define k where "k = too_high g position (zref g)"
  have a: "rays ! i = ray_body g start l n (sdiv (lv ! i) l)"
    unfolding ri l_def n_def start_def ..
  have b: "rays ! i = (k, take k ts, take k position)"
    unfolding a rb k_def position_def ts_def ..
  have c: "length ts = n \<and> 1 \<le> n \<and> ts ! 0 = 0
           \<and> (n = 1 \<longleftrightarrow> l \<le> STEP)
           \<and> (n = 1 \<longrightarrow> ts = [0])
           \<and> (2 \<le> n \<longrightarrow>
                 last ts = l
               \<and> (\<forall>j. Suc j < n \<longrightarrow> ts ! Suc j - ts ! j = l / real (n - 1))
               \<and> STEP < l / real (n - 1)
               \<and> l / real (n - 1) \<le> 2 * STEP)"
    using linspace_sampler_facts [of l] pos
    unfolding Let_def l_def [symmetric] n_def [symmetric] ts_def [symmetric] .
  have "sample_rays g lats lons hts lv = Inr rays \<and> length rays = length lats
      \<and> integrate_rays g delay lats lons hts lv
          = (case delay (concat (map (\<lambda>r. snd (snd r)) rays)) of
               Inl e \<Rightarrow> Inl e
             | Inr wet_delays \<Rightarrow>
                 integrate_loop wet_delays ((roll1 (cumsum (map fst rays)))[0 := 0]) (map fst rays)
                   (map (\<lambda>r. fst (snd r)) rays) [0..<length rays] (replicate (length lats) 0))
      \<and> rays ! i = ray_body g start l n (sdiv (lv ! i) l)
      \<and> rays ! i = (k, take k ts, take k position)
      \<and> length ts = n \<and> 1 \<le> n \<and> ts ! 0 = 0
      \<and> (n = 1 \<longleftrightarrow> l \<le> STEP)
      \<and> (n = 1 \<longrightarrow> ts = [0])
      \<and> (2 \<le> n \<longrightarrow>
            last ts = l
          \<and> (\<forall>j. Suc j < n \<longrightarrow> ts ! Suc j - ts ! j = l / real (n - 1))
          \<and> STEP < l / real (n - 1)
          \<and> l / real (n - 1) \<le> 2 * STEP)"
    by (rule conjI [OF sr conjI [OF len conjI [OF ir conjI [OF a conjI [OF b c]]]]])
  then show ?thesis
    unfolding Let_def l_def n_def ts_def start_def position_def k_def
    by (rule exI [where x = rays])
qed

theorem sampler_parameters_witness:
  "length (zenith_vecs demo_geo [0] [0] [14955]) = length [0 :: real]
   \<and> (0 :: nat) < length [0 :: real]
   \<and> 0 < norm3 (zenith_vecs demo_geo [0] [0] [14955] ! 0)
   \<and> (\<exists>rays. sample_rays demo_geo [0] [0] [14955] (zenith_vecs demo_geo [0] [0] [14955]) = Inr rays
         \<and> rays ! 0 = (3, [0, 45 / 2, 45], [(6385955, 0, 0), (12771955 / 2, 0, 0), (6386000, 0, 0)]))
   \<and> nat \<lceil>norm3 (zenith_vecs demo_geo [0] [0] [14955] ! 0) / STEP\<rceil> = 3
   \<and> last (linspace 0 45 3) = 45
   \<and> STEP < 45 / real (3 - 1 :: nat)"
proof -
  have zv: "zenith_vecs demo_geo [0] [0] [14955] = [(45, 0, 0)]"
    by (simp add: zenith_vecs_def demo_geo_def sphere_geo_def up_vec_origin smul_def)
  have a: "length (zenith_vecs demo_geo [0] [0] [14955]) = length [0 :: real]" by (simp add: zv)
  have b: "(0 :: nat) < length [0 :: real]" by simp
  have c: "0 < norm3 (zenith_vecs demo_geo [0] [0] [14955] ! 0)" by (simp add: zv norm3_axis)
  have l: "norm3 (zenith_vecs demo_geo [0] [0] [14955] ! 0) = 45" by (simp add: zv norm3_axis)
  have n: "nat \<lceil>(45 :: real) / STEP\<rceil> = 3" by (simp add: STEP_def)
  from sampler_parameters [OF a b c, of demo_geo "[0]" "[14955]"]
  obtain rays where r: "sample_rays demo_geo [0] [0] [14955] (zenith_vecs demo_geo [0] [0] [14955]) = Inr rays"
    and f: "last (linspace 0 45 3) = 45" "STEP < 45 / real (3 - 1 :: nat)"
    unfolding Let_def l n by auto
  from r sample_45 have "rays ! 0 = (3, [0, 45 / 2, 45], [(6385955, 0, 0), (12771955 / 2, 0, 0), (6386000, 0, 0)])"
    by auto
  with r a b c f show ?thesis by (auto simp: l n)
qed

text \<open>
  The claim as first stated asks for a spacing of at most \<open>STEP\<close> and for samples up to
  the length of the ray. The sampler returns for a Zenith ray of 30 m the parameters 0 and
  30, 30 m apart, and for a Zenith ray of 10 m the parameter 0 only.
\<close>

theorem sampler_spacing_counterexample:
  "sample_rays demo_geo [0] [0] [14970] (zenith_vecs demo_geo [0] [0] [14970])
     = Inr [(2, [0, 30], [(6385970, 0, 0), (6386000, 0, 0)])]
   \<and> \<not> ([0, 30 :: real] ! 1 - [0, 30] ! 0 \<le> STEP)
   \<and> sample_rays demo_geo [0] [0] [14990] (zenith_vecs demo_geo [0] [0] [14990])
     = Inr [(1, [0], [(6385990, 0, 0)])]
   \<and> last [0 :: real] \<noteq> 10"
  by (simp add: sample_30 sample_10 STEP_def)

subsection \<open>Truncation at the reference height\<close>



subsection \<open>Closed form for a constant model\<close>

text \<open>
  C2. Let the queried component of the weather model answer the constant \<open>c\<close> at every
  position, and let point \<open>i\<close> of a batch lie \<open>L = zref - h\<close> metres below the reference
  height, \<open>L > 0\<close>, where the heights that the coordinate transforms report along its
  vertical ray are right to within \<open>STEP\<close> metres (exact transforms are, and so are
  transforms that round). Then the Zenith call returns, and the delay of point \<open>i\<close> is
  within \<open>1e-6 * |c| * 2 * STEP\<close> of \<open>1e-6 * c * L\<close>. More precisely: it is 0 when
  \<open>L \<le> STEP\<close>, where the ray has a single sample; otherwise it is \<open>1e-6 * c * L\<close> when the
  end sample, which lies on the reference height, is kept, and one sampling interval short
  of it when the end sample is found above the reference height and cut.
\<close>

theorem constant_model_zenith_delay:
  assumes model: "\<And>ps. delay ps = Inr (map (\<lambda>_. c) ps)"
    and len: "length lons = length lats" "length hts = length lats"
    and i: "i < length lats"
    and L: "0 < zref g - hts ! i"
    and geom: "\<forall>t. 0 \<le> t \<and> t \<le> zref g - hts ! i \<longrightarrow>
        \<bar>height_of g (vadd (lla2ecef g (lats ! i) (lons ! i) (hts ! i))
                       (smul t (up_vec (lats ! i) (lons ! i)))) - (hts ! i + t)\<bar> \<le> STEP"
  shows "\<exists>ds. common_delay g delay lats lons hts Zenith True = Inr ds
      \<and> length ds = length lats
      \<and> ds ! i =
          (if zref g - hts ! i \<le> STEP then 0
           else if zref g < height_of g (vadd (lla2ecef g (lats ! i) (lons ! i) (hts ! i))
                                (smul (zref g - hts ! i) (up_vec (lats ! i) (lons ! i))))
           then (1 / 1000000) * c
                  * (zref g - hts ! i
                     - (zref g - hts ! i) / real (nat \<lceil>(zref g - hts ! i) / STEP\<rceil> - 1))
           else (1 / 1000000) * c * (zref g - hts ! i))
      \<and> \<bar>ds ! i - (1 / 1000000) * c * (zref g - hts ! i)\<bar> \<le> (1 / 1000000) * \<bar>c\<bar> * (2 * STEP)"
  using assms by (rule common_delay_zenith_const_rounded)

theorem constant_model_zenith_delay_witness:
  "common_delay demo_geo (\<lambda>ps. Inr (map (\<lambda>_. 1000000) ps)) [0] [0] [14970] Zenith True = Inr [30]
   \<and> common_delay (biased_geo 6371000 15000 (1 / 1000)) (\<lambda>ps. Inr (map (\<lambda>_. 1000000) ps))
        [0] [0] [14955] Zenith True = Inr [45 / 2]"
proof -
  let ?d = "\<lambda>ps :: vec3 list. (Inr (map (\<lambda>_. 1000000) ps) :: error + real list)"
  let ?b = "biased_geo 6371000 15000 (1 / 1000)"
  have m: "\<And>ps. ?d ps = Inr (map (\<lambda>_. 1000000) ps)" by simp
  have zd: "zref demo_geo = 15000" by (simp add: demo_geo_def sphere_geo_def)
  have zb: "zref ?b = 15000" by (simp add: biased_geo_def)
  have hd: "height_of demo_geo (vadd (lla2ecef demo_geo 0 0 14970) (smul t (up_vec 0 0))) = 14970 + t"
    if "0 \<le> t" for t
    unfolding demo_geo_def using that by (simp add: sphere_vertical)
  have hb: "height_of ?b (vadd (lla2ecef ?b 0 0 14955) (smul t (up_vec 0 0))) = 14955 + t + 1 / 1000"
    if "0 \<le> t" for t
    using that by (simp add: biased_vertical)
  have g1: "\<forall>t. 0 \<le> t \<and> t \<le> zref demo_geo - [14970] ! 0 \<longrightarrow>
        \<bar>height_of demo_geo (vadd (lla2ecef demo_geo ([0] ! 0) ([0] ! 0) ([14970] ! 0))
                       (smul t (up_vec ([0] ! 0) ([0] ! 0)))) - ([14970] ! 0 + t)\<bar> \<le> STEP"
    by (simp add: hd STEP_def)
  have g2: "\<forall>t. 0 \<le> t \<and> t \<le> zref ?b - [14955] ! 0 \<longrightarrow>
        \<bar>height_of ?b (vadd (lla2ecef ?b ([0] ! 0) ([0] ! 0) ([14955] ! 0))
                       (smul t (up_vec ([0] ! 0) ([0] ! 0)))) - ([14955] ! 0 + t)\<bar> \<le> STEP"
    by (simp add: hb STEP_def)
  have n: "nat \<lceil>(45 :: real) / STEP\<rceil> = 3" by (simp add: STEP_def)
  from constant_model_zenith_delay [of ?d 1000000 "[0]" "[0]" "[14970]" 0 demo_geo, OF m _ _ _ _ g1]
  obtain ds where a: "common_delay demo_geo ?d [0] [0] [14970] Zenith True = Inr ds"
    and la: "length ds = 1" and va: "ds ! 0 = 30"
    by (auto simp: zd hd STEP_def)
  from constant_model_zenith_delay [of ?d 1000000 "[0]" "[0]" "[14955]" 0 ?b, OF m _ _ _ _ g2]
  obtain es where b: "common_delay ?b ?d [0] [0] [14955] Zenith True = Inr es"
    and lb: "length es = 1" and vb: "es ! 0 = 45 / 2"
    by (auto simp: zb hb STEP_def)
  have "ds = [30]" using la va by (cases ds) auto
  moreover have "es = [45 / 2]" using lb vb by (cases es) auto
  ultimately show ?thesis using a b by simp
qed

subsection \<open>Projection mode\<close>

text \<open>
  C4 (as amended). When \<open>raytrace\<close> is false the look-vector input is one scalar per
  point, the incidence angle off vertical in degrees. Where the cosine of no angle is 0,
  the call returns what the Zenith call returns with the delay of every point multiplied
  by \<open>1 / cosd\<close> of that point's angle; it raises what the Zenith call raises.
\<close>

theorem projection_is_scaled_zenith:
  assumes "length incs = length lats"
    and "\<forall>j < length incs. cosd (incs ! j) \<noteq> 0"
  shows "common_delay g delay lats lons hts (Scalars incs) False
     = (case common_delay g delay lats lons hts Zenith True of
          Inl e \<Rightarrow> Inl e
        | Inr zs \<Rightarrow> Inr (map (\<lambda>i. zs ! i * (1 / cosd (incs ! i))) [0..<length lats]))"
  using assms by (rule common_delay_projection)

theorem projection_is_scaled_zenith_witness:
  "length [60 :: real] = length [0 :: real]
   \<and> cosd 60 \<noteq> 0
   \<and> common_delay (sphere_geo 6371000 15000) (\<lambda>ps. Inr (map (\<lambda>_. 1000000) ps))
        [0] [0] [14970] (Scalars [60]) False = Inr [60]"
proof -
  have l: "length [60 :: real] = length [0 :: real]" by simp
  have c: "\<forall>j < length [60 :: real]. cosd ([60] ! j) \<noteq> 0" by (simp add: cosd_60)
  have "common_delay (sphere_geo 6371000 15000) (\<lambda>ps. Inr (map (\<lambda>_. 1000000) ps))
        [0] [0] [14970] (Scalars [60]) False = Inr [60]"
    unfolding projection_is_scaled_zenith [OF l c] zenith_30 by (simp add: cosd_60)
  then show ?thesis by (simp add: cosd_60)
qed

text \<open>
  The claim as first stated takes the scalar to be the cosine of the incidence angle. At an
  incidence of 60 degrees the vertical delay 30 would then be returned as \<open>30 / cos 60 = 60\<close>
  for the input \<open>cos 60 = 1/2\<close>; the code divides by \<open>cosd (1/2)\<close> instead.
\<close>

theorem projection_cosine_input_counterexample:
  "common_delay (sphere_geo 6371000 15000) (\<lambda>ps. Inr (map (\<lambda>_. 1000000) ps))
     [0] [0] [14970] Zenith True = Inr [30]
   \<and> common_delay (sphere_geo 6371000 15000) (\<lambda>ps. Inr (map (\<lambda>_. 1000000) ps))
     [0] [0] [14970] (Scalars [cosd 60]) False \<noteq> Inr [30 * (1 / cosd 60)]"
proof -
  have l: "length [cosd 60] = length [0::real]" by simp
  have c: "\<forall>j < length [cosd 60]. cosd ([cosd 60] ! j) \<noteq> 0"
    using cosd_half_gt by (simp add: cosd_60)
  have "common_delay (sphere_geo 6371000 15000) (\<lambda>ps. Inr (map (\<lambda>_. 1000000) ps))
     [0] [0] [14970] (Scalars [cosd 60]) False = Inr [30 * (1 / cosd (1 / 2))]"
    unfolding common_delay_projection [OF l c] zenith_30 by (simp add: cosd_60)
  moreover have "30 * (1 / cosd (1 / 2)) \<noteq> 30 * (1 / cosd 60)"
  proof -
    have p: "0 < cosd (1 / 2)" using cosd_half_gt by linarith
    have "30 / cosd (1 / 2) < 60"
      using cosd_half_gt p by (simp add: pos_divide_less_eq)
    then show ?thesis by (simp add: cosd_60)
  qed
  ultimately show ?thesis using zenith_30 by simp
qed

subsection \<open>Degenerate rays\<close>

text \<open>
  C8. Under a weather model that answers every query, a Zenith call on a batch that is not
  empty returns without error, and for every point whose height is above the reference
  height (and is the height that the coordinate transforms give back for its position)
  both the hydrostatic and the wet delay are 0.
\<close>

theorem above_reference_zero_delay:
  assumes hydro: "\<And>ps. wm_hydrostatic_delay w ps = Inr (map qh ps)"
    and wet: "\<And>ps. wm_wet_delay w ps = Inr (map qw ps)"
    and ne: "llas \<noteq> []"
  shows "\<exists>hydro wet. delay_from_grid g cpus w llas Zenith False True = Inr (hydro, wet)
      \<and> length hydro = length llas \<and> length wet = length llas
      \<and> (\<forall>i < length llas.
            (case llas ! i of (lat, lon, h) \<Rightarrow>
               zref g < h \<and> height_of g (lla2ecef g lat lon h) = h)
            \<longrightarrow> hydro ! i = 0 \<and> wet ! i = 0)"
proof -
  have z: "zenith_ray_delay g q (llas ! i) = 0"
    if "case llas ! i of (lat, lon, h) \<Rightarrow> zref g < h \<and> height_of g (lla2ecef g lat lon h) = h"
    for q i
  proof -
    obtain lat lon h where p: "llas ! i = (lat, lon, h)" by (cases "llas ! i") auto
    from that have "zref g < height_of g (lla2ecef g lat lon h)" by (simp add: p)
    then show ?thesis by (simp add: zenith_ray_delay_def p ray_delay_start_high)
  qed
  have "delay_from_grid g cpus w llas Zenith False True
     = Inr (map (zenith_ray_delay g qh) llas, map (zenith_ray_delay g qw) llas)"
    using hydro wet ne by (rule delay_from_grid_serial_zenith)
  moreover have "\<forall>i < length llas.
            (case llas ! i of (lat, lon, h) \<Rightarrow>
               zref g < h \<and> height_of g (lla2ecef g lat lon h) = h)
            \<longrightarrow> map (zenith_ray_delay g qh) llas ! i = 0 \<and> map (zenith_ray_delay g qw) llas ! i = 0"
    using z by simp
  ultimately show ?thesis by simp
qed

theorem above_reference_zero_delay_witness:
  "delay_from_grid (sphere_geo 6371000 15000) 4
     \<lparr>wm_hydrostatic_delay = (\<lambda>ps. Inr (map (\<lambda>_. 1000000) ps)),
      wm_wet_delay = (\<lambda>ps. Inr (map (\<lambda>_. 2000000) ps))\<rparr>
     [(0, 0, 15100)] Zenith False True = Inr ([0], [0])"
proof -
  let ?g = "sphere_geo 6371000 15000"
  let ?w = "\<lparr>wm_hydrostatic_delay = (\<lambda>ps :: vec3 list. (Inr (map (\<lambda>_. 1000000) ps) :: error + real list)),
      wm_wet_delay = (\<lambda>ps :: vec3 list. (Inr (map (\<lambda>_. 2000000) ps) :: error + real list))\<rparr>"
  have h: "\<And>ps. wm_hydrostatic_delay ?w ps = Inr (map (\<lambda>_. 1000000) ps)" by simp
  have v: "\<And>ps. wm_wet_delay ?w ps = Inr (map (\<lambda>_. 2000000) ps)" by simp
  have ne: "[(0, 0, 15100 :: real)] \<noteq> ([] :: vec3 list)" by simp
  have hi: "zref ?g < 15100 \<and> height_of ?g (lla2ecef ?g 0 0 15100) = 15100"
    by (simp add: sphere_roundtrip) (simp add: sphere_geo_def)
  from above_reference_zero_delay [of ?w "\<lambda>_. 1000000" "\<lambda>_. 2000000" "[(0, 0, 15100)]" ?g 4, OF h v ne]
  obtain hydro wet where r: "delay_from_grid ?g 4 ?w [(0, 0, 15100)] Zenith False True = Inr (hydro, wet)"
    and l: "length hydro = 1" "length wet = 1"
    and z: "hydro ! 0 = 0" "wet ! 0 = 0"
    using hi by auto
  have "hydro = [0]" "wet = [0]"
    using l z by (auto intro!: nth_equalityI)
  with r show ?thesis by simp
qed

text \<open>
  C10. For a Zenith call and a point whose height is the reference height exactly, the look
  vector has length 0, the step count is 0 and the sample sequence is empty; the loop body
  returns nothing for such a ray whatever the direction is, so the quotient of the zero
  vector by its zero length is not read at any position; and both delays of the point are 0.
\<close>

theorem reference_height_zero_delay:
  assumes hydro: "\<And>ps. wm_hydrostatic_delay w ps = Inr (map qh ps)"
    and wet: "\<And>ps. wm_wet_delay w ps = Inr (map qw ps)"
    and i: "i < length llas"
    and h: "snd (snd (llas ! i)) = zref g"
  shows "norm3 (zenith_vecs g (map fst llas) (map (\<lambda>p. fst (snd p)) llas) (map (\<lambda>p. snd (snd p)) llas) ! i) = 0
      \<and> nat \<lceil>(0::real) / STEP\<rceil> = 0
      \<and> linspace 0 0 (nat \<lceil>(0::real) / STEP\<rceil>) = []
      \<and> (\<forall>s d. ray_body g s 0 (nat \<lceil>(0::real) / STEP\<rceil>) d = (0, [], []))
      \<and> (\<exists>hydro wet. delay_from_grid g cpus w llas Zenith False True = Inr (hydro, wet)
            \<and> length hydro = length llas \<and> length wet = length llas
            \<and> hydro ! i = 0 \<and> wet ! i = 0)"
proof -
  obtain lat lon ht where p: "llas ! i = (lat, lon, ht)" by (cases "llas ! i") auto
  have ht: "ht = zref g" using h p by simp
  have ne: "llas \<noteq> []" using i by auto
  have a: "norm3 (zenith_vecs g (map fst llas) (map (\<lambda>p. fst (snd p)) llas) (map (\<lambda>p. snd (snd p)) llas) ! i) = 0"
    using i by (simp add: zenith_vecs_def h norm3_smul)
  have b: "nat \<lceil>(0::real) / STEP\<rceil> = 0" by simp
  have c: "\<forall>s d. ray_body g s 0 (nat \<lceil>(0::real) / STEP\<rceil>) d = (0, [], [])"
    by (simp add: ray_body_no_steps)
  have z: "zenith_ray_delay g q (llas ! i) = 0" for q
    by (simp add: zenith_ray_delay_def p ht ray_delay_def Let_def norm3_smul ray_body_no_steps
        trapz_sum_def)
  have "delay_from_grid g cpus w llas Zenith False True
     = Inr (map (zenith_ray_delay g qh) llas, map (zenith_ray_delay g qw) llas)"
    using hydro wet ne by (rule delay_from_grid_serial_zenith)
  then have d: "\<exists>hydro wet. delay_from_grid g cpus w llas Zenith False True = Inr (hydro, wet)
            \<and> length hydro = length llas \<and> length wet = length llas
            \<and> hydro ! i = 0 \<and> wet ! i = 0"
    using i z by simp
  show ?thesis using a b c d by (simp add: linspace_def)
qed

theorem reference_height_zero_delay_witness:
  "delay_from_grid (sphere_geo 6371000 15000) 4
     \<lparr>wm_hydrostatic_delay = (\<lambda>ps. Inr (map (\<lambda>_. 1000000) ps)),
      wm_wet_delay = (\<lambda>ps. Inr (map (\<lambda>_. 2000000) ps))\<rparr>
     [(0, 0, 15000)] Zenith False True = Inr ([0], [0])"
proof -
  let ?g = "sphere_geo 6371000 15000"
  let ?w = "\<lparr>wm_hydrostatic_delay = (\<lambda>ps :: vec3 list. (Inr (map (\<lambda>_. 1000000) ps) :: error + real list)),
      wm_wet_delay = (\<lambda>ps :: vec3 list. (Inr (map (\<lambda>_. 2000000) ps) :: error + real list))\<rparr>"
  have h: "\<And>ps. wm_hydrostatic_delay ?w ps = Inr (map (\<lambda>_. 1000000) ps)" by simp
  have v: "\<And>ps. wm_wet_delay ?w ps = Inr (map (\<lambda>_. 2000000) ps)" by simp
  have i: "0 < length [(0, 0, 15000 :: real) :: vec3]" by simp
  have z: "snd (snd ([(0, 0, 15000 :: real) :: vec3] ! 0)) = zref ?g" by (simp add: sphere_geo_def)
  from reference_height_zero_delay [of ?w "\<lambda>_. 1000000" "\<lambda>_. 2000000" 0 "[(0, 0, 15000)]" ?g 4, OF h v i z]
  obtain hydro wet where r: "delay_from_grid ?g 4 ?w [(0, 0, 15000)] Zenith False True = Inr (hydro, wet)"
    and l: "length hydro = 1" "length wet = 1"
    and z: "hydro ! 0 = 0" "wet ! 0 = 0"
    by auto
  have "hydro = [0]" "wet = [0]"
    using l z by (auto intro!: nth_equalityI)
  with r show ?thesis by simp
qed

subsection \<open>Parallel dispatch against the serial path\<close>

text \<open>
  C3. The claim asks that, for every number of points and every worker count of at least
  one, the index slices of each component's jobs tile the index range. The wet jobs read
  the boundaries computed for the hydrostatic jobs, \<open>cpu_count div 2 + 1\<close> of them, at
  indices up to \<open>cpu_count - cpu_count div 2\<close>: for every odd worker count the last wet
  job reads past the end, and the job list is never built.
\<close>

theorem wet_jobs_index_error:
  "odd cpu_count \<Longrightarrow> dispatch_jobs cpu_count n = Inl IndexError"
  by (rule dispatch_jobs_odd)

theorem wet_jobs_index_error_witness:
  "odd (3::nat) \<and> dispatch_jobs 3 4 = Inl IndexError"
  using wet_jobs_index_error [of 3 4] by simp

text \<open>
  C1. The claim asks that the parallel call returns what the serial call returns, for
  every worker count of at least one. For one point 30 m below the reference height and a
  constant weather model the serial call returns the delays 30 and 60; the parallel call
  raises an index error with one or three workers (the defect of C3), and with four
  workers it raises because two of its four slices are empty and the jobs on them fail.
\<close>

theorem parallel_differs_from_serial:
  "delay_from_grid demo_geo 1 (const_weather 1000000 2000000) [(0, 0, 14970)] Zenith False True
     = Inr ([30], [60])
   \<and> delay_from_grid demo_geo 1 (const_weather 1000000 2000000) [(0, 0, 14970)] Zenith True True
     = Inl IndexError
   \<and> delay_from_grid demo_geo 3 (const_weather 1000000 2000000) [(0, 0, 14970)] Zenith True True
     = Inl IndexError
   \<and> delay_from_grid demo_geo 4 (const_weather 1000000 2000000) [(0, 0, 14970)] Zenith True True
     = Inl (ValueError ''zero-dimensional arrays cannot be concatenated'')"
  by (simp add: serial_const parallel_odd parallel_const_4)

subsection \<open>A worker that raises\<close>

text \<open>
  C7 (as amended). If any worker raises while computing its slice of a parallel call, then
  the call, once all workers have been joined, raises an error and returns no result: not
  the worker's exception, which ends its thread unseen, but the \<open>ValueError\<close> of
  concatenating answers of which the one of that slice is missing.
\<close>

theorem failed_worker_call_raises:
  assumes los: "prepare_los los0 raytrace = Inr los"
    and jobs: "dispatch_jobs cpu_count (length llas) = Inr jobs"
    and j: "j \<in> set jobs"
    and fail: "go g w (map fst llas) (map (\<lambda>p. fst (snd p)) llas) (map (\<lambda>p. snd (snd p)) llas)
                 los raytrace j = Inl e"
  shows "\<exists>m. delay_from_grid g cpu_count w llas los0 True raytrace = Inl (ValueError m)"
  using assms by (rule failed_worker_no_result)

theorem failed_worker_call_raises_witness:
  "prepare_los Zenith True = Inr Zenith
   \<and> dispatch_jobs 2 (length [(0, 0, 14970 :: real) :: vec3]) = Inr [(''hydro'', 0, 1), (''wet'', 0, 1)]
   \<and> go demo_geo (failing_weather ''boom'' 2000000) [0] [0] [14970] Zenith True (''hydro'', 0, 1)
       = Inl (ModelError ''boom'')
   \<and> (\<exists>m. delay_from_grid demo_geo 2 (failing_weather ''boom'' 2000000) [(0, 0, 14970)] Zenith True True
          = Inl (ValueError m))"
proof -
  have a: "prepare_los Zenith True = Inr Zenith" by (simp add: prepare_los_def)
  have b: "dispatch_jobs 2 (length [(0, 0, 14970 :: real) :: vec3]) = Inr [(''hydro'', 0, 1), (''wet'', 0, 1)]"
    using dispatch_jobs_2_1 by simp
  have c: "(''hydro'', 0, 1) \<in> set [(''hydro'', 0, 1 :: nat), (''wet'', 0 :: nat, 1)]" by simp
  have d: "go demo_geo (failing_weather ''boom'' 2000000) (map fst [(0, 0, 14970 :: real) :: vec3])
      (map (\<lambda>p. fst (snd p)) [(0, 0, 14970)]) (map (\<lambda>p. snd (snd p)) [(0, 0, 14970)])
      Zenith True (''hydro'', 0, 1) = Inl (ModelError ''boom'')"
    using go_failing(1) [of "''boom''" 2000000] by simp
  from failed_worker_call_raises [OF a b c d] a b d show ?thesis by simp
qed

text \<open>
  The claim as first stated has the worker's exception reach the caller. With two workers
  and a hydrostatic query that raises \<open>ModelError\<close>, the serial call raises that error and
  the parallel call a \<open>ValueError\<close>.
\<close>

theorem worker_exception_replaced_counterexample:
  "go demo_geo (failing_weather ''boom'' 2000000) [0] [0] [14970] Zenith True (''hydro'', 0, 1)
     = Inl (ModelError ''boom'')
   \<and> delay_from_grid demo_geo 2 (failing_weather ''boom'' 2000000) [(0, 0, 14970)] Zenith False True
     = Inl (ModelError ''boom'')
   \<and> delay_from_grid demo_geo 2 (failing_weather ''boom'' 2000000) [(0, 0, 14970)] Zenith True True
     = Inl (ValueError ''zero-dimensional arrays cannot be concatenated'')
   \<and> delay_from_grid demo_geo 2 (failing_weather ''boom'' 2000000) [(0, 0, 14970)] Zenith True True
     \<noteq> Inl (ModelError ''boom'')"
  using go_failing(1) [of "''boom''" 2000000]
  by (simp add: serial_failing parallel_failing_2)

subsection \<open>Shape mismatch in the file-backed entry point\<close>

text \<open>
  C9. The claim asks for an error message that names the offending shapes. For latitudes
  of shape (10, 10) and longitudes of shape (5, 5) the call raises before anything is
  computed, but of the three adjacent string literals of the message only the first is an
  f-string: the braces are not filled in, the text is the same for all shapes, and no
  digit occurs in it.
\<close>

theorem mismatch_message_names_no_shape:
  "delay_from_files g cpus los_to_lv w
     \<lparr>shape = [10, 10], data = replicate 100 0\<rparr>
     \<lparr>shape = [5, 5], data = replicate 25 0\<rparr>
     \<lparr>shape = [10, 10], data = replicate 100 0\<rparr> parallel None raytrace
   = Inl (ValueError ''lat, lon, and ht should have the same shape, but instead lat had shape {lats.shape}, lon had shape {lons.shape}, and ht had shape {hts.shape}'')
   \<and> shape_message [10, 10] [5, 5] [10, 10] = shape_message [3] [4] [3]
   \<and> filter (\<lambda>c. c \<in> set ''0123456789'') (shape_message [10, 10] [5, 5] [10, 10]) = []"
  by (simp add: delay_from_files_def shape_message_def)

end
